theory Spec2Isabelle
  imports Main
begin

section \<open>Strings\<close>

text \<open>
  A JavaScript string is a sequence of UTF-16 code units. It is modelled as the list of
  the numbers of its code units, so that \<open>length\<close> counts what \<open>String.length\<close>
  counts and the whitespace class of \<open>trim\<close> and of the regular expression escape
  \<open>\s\<close> can be written out in full. \<open>str\<close> turns an (ASCII) literal into such a list.
\<close>

type_synonym jsstring = "nat list"

definition str :: "string \<Rightarrow> jsstring" where
  "str s = map of_char s"

section \<open>The table model (src/tableModel.js)\<close>

text \<open>
  \<open>Cell: { content: string, colspan: number, rowspan: number }\<close>,
  \<open>Row: { isHeader: boolean, cells: Cell[] }\<close>,
  \<open>{ alignments: string[], rows: Row[] }\<close>. The two span counts are integers here:
  the non-integral values of a JavaScript number are outside the model.
\<close>

record cell =
  content :: jsstring
  colspan :: int
  rowspan :: int

record row =
  isHeader :: bool
  cells :: "cell list"

record table =
  alignments :: "jsstring list"
  rows :: "row list"

definition createCell :: "jsstring \<Rightarrow> int \<Rightarrow> int \<Rightarrow> cell" where
  "createCell c cs rs = \<lparr>content = c, colspan = cs, rowspan = rs\<rparr>"

text \<open>\<open>createCell()\<close> and \<open>createCell(content)\<close>: the defaults of the parameters.\<close>

definition createCell0 :: cell where
  "createCell0 = createCell [] 1 1"

definition createCell1 :: "jsstring \<Rightarrow> cell" where
  "createCell1 c = createCell c 1 1"

definition createRow :: "cell list \<Rightarrow> bool \<Rightarrow> row" where
  "createRow cs h = \<lparr>isHeader = h, cells = cs\<rparr>"

definition createTable :: "row list \<Rightarrow> jsstring list \<Rightarrow> table" where
  "createTable rs as = \<lparr>alignments = as, rows = rs\<rparr>"

text \<open>The inner loop of \<open>getColumnCount\<close> and of \<open>normalizeTable\<close>:
  \<open>count += cell.colspan\<close> over the cells of a row, from 0.\<close>

definition colspanSum :: "cell list \<Rightarrow> int" where
  "colspanSum cs = foldl (\<lambda>count c. count + colspan c) 0 cs"

definition getColumnCount :: "table \<Rightarrow> int" where
  "getColumnCount t =
     foldl (\<lambda>mx r. let count = colspanSum (cells r) in if count > mx then count else mx)
       0 (rows t)"

text \<open>\<open>while (currentCols < colCount) { row.cells.push(createCell()); currentCols++; }\<close>\<close>

function padCells :: "cell list \<Rightarrow> int \<Rightarrow> int \<Rightarrow> cell list" where
  "padCells cs currentCols colCount =
     (if currentCols < colCount
      then padCells (cs @ [createCell0]) (currentCols + 1) colCount
      else cs)"
  by pat_completeness auto
termination
  by (relation "measure (\<lambda>(cs, currentCols, colCount). nat (colCount - currentCols))") auto

declare padCells.simps [simp del]

text \<open>\<open>while (table.alignments.length < colCount) { table.alignments.push('left'); }\<close>\<close>

function padAlignments :: "jsstring list \<Rightarrow> int \<Rightarrow> jsstring list" where
  "padAlignments as colCount =
     (if int (length as) < colCount
      then padAlignments (as @ [str ''left'']) colCount
      else as)"
  by pat_completeness auto
termination
  by (relation "measure (\<lambda>(as, colCount). nat (colCount - int (length as)))") auto

declare padAlignments.simps [simp del]

text \<open>\<open>xs.slice(0, n)\<close>: a negative end counts from the end of the array.\<close>

definition slice0 :: "'a list \<Rightarrow> int \<Rightarrow> 'a list" where
  "slice0 xs n = (if n < 0 then take (nat (int (length xs) + n)) xs else take (nat n) xs)"

definition normalizeRow :: "int \<Rightarrow> row \<Rightarrow> row" where
  "normalizeRow colCount r =
     r\<lparr>cells := padCells (cells r) (colspanSum (cells r)) colCount\<rparr>"

text \<open>
  \<open>normalizeTable\<close> as a function of the value of the table: the column count is read
  first, then every row is padded, then the alignments are padded and cut.
\<close>

definition normalizeTable :: "table \<Rightarrow> table" where
  "normalizeTable t =
     (let colCount = getColumnCount t;
          t1 = t\<lparr>rows := map (normalizeRow colCount) (rows t)\<rparr>;
          t2 = t1\<lparr>alignments := padAlignments (alignments t1) colCount\<rparr>
      in t2\<lparr>alignments := slice0 (alignments t2) colCount\<rparr>)"

text \<open>
  The same function on a store of table objects: the argument is a reference, the object
  it points to is overwritten, and \<open>return table\<close> hands the reference back. A reference
  that points to no object stands for a call on \<open>null\<close> or \<open>undefined\<close>, which throws.
\<close>

type_synonym ref = nat
type_synonym store = "ref \<Rightarrow> table option"

definition normalizeTableRef :: "store \<Rightarrow> ref \<Rightarrow> (store \<times> ref) option" where
  "normalizeTableRef s p =
     (case s p of
        None \<Rightarrow> None
      | Some t \<Rightarrow>
          (let colCount = getColumnCount t;
               s1 = s(p \<mapsto> t\<lparr>rows := map (normalizeRow colCount) (rows t)\<rparr>);
               s2 = s1(p := map_option (\<lambda>u. u\<lparr>alignments := padAlignments (alignments u) colCount\<rparr>) (s1 p));
               s3 = s2(p := map_option (\<lambda>u. u\<lparr>alignments := slice0 (alignments u) colCount\<rparr>) (s2 p))
           in Some (s3, p)))"

section \<open>Markdown parsing (markdownToHtml.js)\<close>

abbreviation (input) NL :: nat where "NL \<equiv> 10"
abbreviation (input) SPACE :: nat where "SPACE \<equiv> 32"
abbreviation (input) DQUOTE :: nat where "DQUOTE \<equiv> 34"
abbreviation (input) AMP :: nat where "AMP \<equiv> 38"
abbreviation (input) MINUS :: nat where "MINUS \<equiv> 45"
abbreviation (input) COLON :: nat where "COLON \<equiv> 58"
abbreviation (input) LT :: nat where "LT \<equiv> 60"
abbreviation (input) GT :: nat where "GT \<equiv> 62"
abbreviation (input) BACKSLASH :: nat where "BACKSLASH \<equiv> 92"
abbreviation (input) PIPE :: nat where "PIPE \<equiv> 124"

text \<open>
  The class \<open>\s\<close> of a JavaScript regular expression, which is also what
  \<open>String.prototype.trim\<close> removes: WhiteSpace and LineTerminator of ECMAScript.
\<close>

definition isWhiteSpace :: "nat \<Rightarrow> bool" where
  "isWhiteSpace c \<longleftrightarrow>
     c = 9 \<or> c = 10 \<or> c = 11 \<or> c = 12 \<or> c = 13 \<or> c = 32 \<or> c = 160 \<or> c = 5760 \<or>
     (8192 \<le> c \<and> c \<le> 8202) \<or> c = 8232 \<or> c = 8233 \<or> c = 8239 \<or> c = 8287 \<or>
     c = 12288 \<or> c = 65279"

definition trim :: "jsstring \<Rightarrow> jsstring" where
  "trim s = rev (dropWhile isWhiteSpace (rev (dropWhile isWhiteSpace s)))"

text \<open>\<open>s.split(c)\<close> for a separator of one code unit.\<close>

fun split_from :: "nat \<Rightarrow> jsstring \<Rightarrow> jsstring \<Rightarrow> jsstring list" where
  "split_from c cur [] = [cur]"
| "split_from c cur (x # xs) =
     (if x = c then cur # split_from c [] xs else split_from c (cur @ [x]) xs)"

definition split_on :: "nat \<Rightarrow> jsstring \<Rightarrow> jsstring list" where
  "split_on c s = split_from c [] s"

text \<open>\<open>parts.join(sep)\<close>\<close>

fun join :: "jsstring \<Rightarrow> jsstring list \<Rightarrow> jsstring" where
  "join sep [] = []"
| "join sep [p] = p"
| "join sep (p # q # ps) = p @ sep @ join sep (q # ps)"

text \<open>\<open>s.replace(/^\|/, '')\<close> and \<open>s.replace(/\|$/, '')\<close>\<close>

definition stripLeadingPipe :: "jsstring \<Rightarrow> jsstring" where
  "stripLeadingPipe s = (case s of [] \<Rightarrow> [] | c # cs \<Rightarrow> if c = PIPE then cs else s)"

definition stripTrailingPipe :: "jsstring \<Rightarrow> jsstring" where
  "stripTrailingPipe s = (if s \<noteq> [] \<and> last s = PIPE then butlast s else s)"

definition startsWith :: "jsstring \<Rightarrow> nat \<Rightarrow> bool" where
  "startsWith s c = (case s of [] \<Rightarrow> False | x # xs \<Rightarrow> x = c)"

definition endsWith :: "jsstring \<Rightarrow> nat \<Rightarrow> bool" where
  "endsWith s c = (s \<noteq> [] \<and> last s = c)"

text \<open>
  \<open>SEPARATOR_RE = /^\|[\s:|-]+\|$/\<close> and its \<open>test\<close>: the whole string is a bar, then one
  or more code units of the class, then a bar. The class holds the bar itself, so the
  match is decided by the first and last code unit and the ones between them.
\<close>

definition separatorClass :: "nat \<Rightarrow> bool" where
  "separatorClass c \<longleftrightarrow> isWhiteSpace c \<or> c = COLON \<or> c = PIPE \<or> c = MINUS"

definition SEPARATOR_RE :: "jsstring \<Rightarrow> bool" where
  "SEPARATOR_RE s \<longleftrightarrow>
     3 \<le> length s \<and> hd s = PIPE \<and> last s = PIPE \<and> list_all separatorClass (butlast (tl s))"

definition segmentAlignment :: "jsstring \<Rightarrow> jsstring" where
  "segmentAlignment seg =
     (let trimmed = trim seg;
          left = startsWith trimmed COLON;
          right = endsWith trimmed COLON
      in if left \<and> right then str ''center''
         else if right then str ''right''
         else str ''left'')"

definition parseAlignments :: "jsstring \<Rightarrow> jsstring list" where
  "parseAlignments separatorLine =
     (let raw = stripTrailingPipe (stripLeadingPipe separatorLine)
      in map segmentAlignment (split_on PIPE raw))"

text \<open>
  \<open>inner.split(/(?<!\\)\|/)\<close>: a bar separates unless the code unit before it in
  \<open>inner\<close> is a backslash. The flag says whether the previous code unit was one.
\<close>

fun splitUnescapedFrom :: "bool \<Rightarrow> jsstring \<Rightarrow> jsstring \<Rightarrow> jsstring list" where
  "splitUnescapedFrom esc cur [] = [cur]"
| "splitUnescapedFrom esc cur (x # xs) =
     (if x = PIPE \<and> \<not> esc then cur # splitUnescapedFrom False [] xs
      else splitUnescapedFrom (x = BACKSLASH) (cur @ [x]) xs)"

definition splitUnescaped :: "jsstring \<Rightarrow> jsstring list" where
  "splitUnescaped s = splitUnescapedFrom False [] s"

text \<open>\<open>p.replace(/\\\|/g, '|')\<close>\<close>

fun unescapePipes :: "jsstring \<Rightarrow> jsstring" where
  "unescapePipes (a # b # s) =
     (if a = BACKSLASH \<and> b = PIPE then PIPE # unescapePipes s else a # unescapePipes (b # s))"
| "unescapePipes s = s"

definition parseCells :: "jsstring \<Rightarrow> jsstring list" where
  "parseCells line =
     (let inner = stripTrailingPipe (stripLeadingPipe line);
          parts = splitUnescaped inner
      in map (\<lambda>p. unescapePipes (trim p)) parts)"

text \<open>The search for the separator row: \<open>for (let i = 0; i < lines.length; i++)\<close>.\<close>

function findSeparator :: "jsstring list \<Rightarrow> nat \<Rightarrow> nat option" where
  "findSeparator ls i =
     (if i < length ls
      then (if SEPARATOR_RE (ls ! i) then Some i else findSeparator ls (i + 1))
      else None)"
  by pat_completeness auto
termination
  by (relation "measure (\<lambda>(ls, i). length ls - i)") auto

declare findSeparator.simps [simp del]

text \<open>\<open>markdown.split('\n').map((l) => l.trim()).filter((l) => l.length > 0)\<close>\<close>

definition markdownLines :: "jsstring \<Rightarrow> jsstring list" where
  "markdownLines markdown = filter (\<lambda>l. length l > 0) (map trim (split_on NL markdown))"

text \<open>The result \<open>None\<close> is the \<open>null\<close> that the function returns for "no table".\<close>

definition parseMarkdownTable :: "jsstring \<Rightarrow> table option" where
  "parseMarkdownTable markdown =
     (let ls = markdownLines markdown
      in if length ls < 2 then None
         else case findSeparator ls 0 of
                None \<Rightarrow> None
              | Some separatorIndex \<Rightarrow>
                  (let als = parseAlignments (ls ! separatorIndex);
                       headerLines = take separatorIndex ls;
                       dataLines = drop (separatorIndex + 1) ls;
                       rs = map (\<lambda>line. createRow (map createCell1 (parseCells line)) True) headerLines
                          @ map (\<lambda>line. createRow (map createCell1 (parseCells line)) False) dataLines
                   in Some (normalizeTable (createTable rs als))))"

text \<open>
  What a well-formed table is, for the result of a parser: at least one row and one
  column, every row with as many cells as there are alignments, every cell with colspan 1
  and rowspan 1, and every alignment one of the three kinds.
\<close>

definition wellFormedTable :: "table \<Rightarrow> bool" where
  "wellFormedTable t \<longleftrightarrow>
     rows t \<noteq> [] \<and> alignments t \<noteq> [] \<and>
     list_all (\<lambda>r. length (cells r) = length (alignments t) \<and>
                    list_all (\<lambda>c. colspan c = 1 \<and> rowspan c = 1) (cells r)) (rows t) \<and>
     list_all (\<lambda>a. a = str ''left'' \<or> a = str ''center'' \<or> a = str ''right'') (alignments t)"

text \<open>
  The separator pattern in the words of the specification, to be compared with
  \<open>SEPARATOR_RE\<close>: the line starts and ends with a bar and holds only \<open>-\<close>, \<open>:\<close>, \<open>|\<close>
  and whitespace in between.
\<close>

definition separatorPatternAsWorded :: "jsstring \<Rightarrow> bool" where
  "separatorPatternAsWorded s \<longleftrightarrow>
     startsWith s PIPE \<and> endsWith s PIPE \<and> list_all separatorClass (butlast (tl s))"


section \<open>Markdown generation (src/htmlToMarkdown.js)\<close>

text \<open>\<open>content.replace(/\|/g, '\\|')\<close>\<close>

definition escapeMarkdownCell :: "jsstring \<Rightarrow> jsstring" where
  "escapeMarkdownCell c = concat (map (\<lambda>x. if x = PIPE then [BACKSLASH, PIPE] else [x]) c)"

text \<open>\<open>s.padEnd(w)\<close> pads with spaces; \<open>'-'.repeat(w)\<close>.\<close>

definition padEnd :: "jsstring \<Rightarrow> nat \<Rightarrow> jsstring" where
  "padEnd s w = s @ replicate (w - length s) SPACE"

definition dashes :: "nat \<Rightarrow> jsstring" where
  "dashes w = replicate w MINUS"

text \<open>
  The column widths: \<open>new Array(colCount).fill(3)\<close>, then for every row and every
  \<open>i < row.cells.length && i < colCount\<close> the maximum with the escaped length.
\<close>

definition widthsRow :: "nat \<Rightarrow> nat list \<Rightarrow> row \<Rightarrow> nat list" where
  "widthsRow colCount ws r =
     foldl (\<lambda>ws i. ws[i := max (ws ! i) (length (escapeMarkdownCell (content (cells r ! i))))])
       ws [0 ..< min (length (cells r)) colCount]"

definition columnWidths :: "table \<Rightarrow> nat list" where
  "columnWidths t =
     (let colCount = length (alignments t)
      in foldl (widthsRow colCount) (replicate colCount 3) (rows t))"

text \<open>One table line: \<open>'|' + cells.join('|') + '|'\<close> with \<open>' ' + content.padEnd(widths[i]) + ' '\<close>
  for every \<open>i < colCount\<close>, a missing cell counting as the empty string.\<close>

definition renderRow :: "nat \<Rightarrow> nat list \<Rightarrow> row \<Rightarrow> jsstring" where
  "renderRow colCount ws r =
     [PIPE] @ join [PIPE]
       (map (\<lambda>i. let c = (if i < length (cells r) then escapeMarkdownCell (content (cells r ! i)) else [])
                 in [SPACE] @ padEnd c (ws ! i) @ [SPACE])
          [0 ..< colCount])
     @ [PIPE]"

text \<open>\<open>table.alignments[i] || 'left'\<close>: an absent entry and the empty string give \<open>'left'\<close>.\<close>

definition alignmentAt :: "jsstring list \<Rightarrow> nat \<Rightarrow> jsstring" where
  "alignmentAt as i = (if i < length as \<and> as ! i \<noteq> [] then as ! i else str ''left'')"

definition separatorSegment :: "jsstring \<Rightarrow> nat \<Rightarrow> jsstring" where
  "separatorSegment align w =
     (if align = str ''center'' then [COLON] @ dashes w @ [COLON]
      else if align = str ''right'' then dashes w @ [MINUS, COLON]
      else dashes (w + 2))"

text \<open>The argument is \<open>None\<close> for \<open>null\<close>: \<open>if (!table || table.rows.length === 0) return ''\<close>.\<close>

definition tableModelToMarkdown :: "table option \<Rightarrow> jsstring" where
  "tableModelToMarkdown tbl =
     (case tbl of
        None \<Rightarrow> []
      | Some t \<Rightarrow>
          if length (rows t) = 0 then []
          else
            (let colCount = length (alignments t);
                 ws = columnWidths t;
                 headerRows = filter (\<lambda>r. isHeader r) (rows t);
                 dataRows = filter (\<lambda>r. \<not> isHeader r) (rows t);
                 actualHeaders = (if length headerRows = 0 \<and> length (rows t) > 0
                                  then [rows t ! 0] else headerRows);
                 actualData = (if length headerRows = 0 \<and> length (rows t) > 0
                               then drop 1 (rows t) else dataRows);
                 separators = map (\<lambda>i. separatorSegment (alignmentAt (alignments t) i) (ws ! i))
                                [0 ..< colCount]
             in join [NL]
                  (map (renderRow colCount ws) actualHeaders
                   @ [[PIPE] @ join [PIPE] separators @ [PIPE]]
                   @ map (renderRow colCount ws) actualData)))"

section \<open>Generated Markdown read back\<close>

text \<open>
  For the statements about \<open>tableModelToMarkdown\<close> and \<open>parseMarkdownTable\<close> together.
  \<open>actualHeaders\<close> and \<open>actualData\<close> are the two lists of that name in
  \<open>tableModelToMarkdown\<close>: the rows written above and below the separator line.
\<close>

definition actualHeaders :: "table \<Rightarrow> row list" where
  "actualHeaders t =
     (if length (filter (\<lambda>r. isHeader r) (rows t)) = 0 \<and> length (rows t) > 0
      then [rows t ! 0] else filter (\<lambda>r. isHeader r) (rows t))"

definition actualData :: "table \<Rightarrow> row list" where
  "actualData t =
     (if length (filter (\<lambda>r. isHeader r) (rows t)) = 0 \<and> length (rows t) > 0
      then drop 1 (rows t) else filter (\<lambda>r. \<not> isHeader r) (rows t))"










section \<open>HTML generation (markdownToHtml.js)\<close>

definition alignStyle :: "jsstring \<Rightarrow> jsstring" where
  "alignStyle alignment =
     (if alignment = str ''center'' then str ''text-align: center;''
      else if alignment = str ''right'' then str ''text-align: right;''
      else str ''text-align: left;'')"

text \<open>\<open>str.replace(/x/g, rep)\<close> for a pattern of one code unit, and the four
  replacements of \<open>escapeHtml\<close> in their order.\<close>

definition replaceAll :: "nat \<Rightarrow> jsstring \<Rightarrow> jsstring \<Rightarrow> jsstring" where
  "replaceAll c rep s = concat (map (\<lambda>x. if x = c then rep else [x]) s)"

definition escapeHtml :: "jsstring \<Rightarrow> jsstring" where
  "escapeHtml s =
     replaceAll DQUOTE (str ''&quot;'')
       (replaceAll GT (str ''&gt;'')
          (replaceAll LT (str ''&lt;'')
             (replaceAll AMP (str ''&amp;'') s)))"

text \<open>For the statements about \<open>escapeHtml\<close>: what the four replacements together write
  for one code unit.\<close>

definition escapeUnit :: "nat \<Rightarrow> jsstring" where
  "escapeUnit x =
     (if x = AMP then str ''&amp;'' else if x = LT then str ''&lt;''
      else if x = GT then str ''&gt;'' else if x = DQUOTE then str ''&quot;'' else [x])"

definition cellStyle :: jsstring where
  "cellStyle = str ''border: 1px solid black; padding: 6px 12px;''"

text \<open>The two \<open>row.cells.forEach((cell, i) => ...)\<close> bodies, one for a header cell and
  one for a data cell, each with its \<open>attrs\<close>.\<close>

definition thAttrs :: "jsstring list \<Rightarrow> nat \<Rightarrow> jsstring" where
  "thAttrs as i =
     str ''style='' @ [DQUOTE] @ cellStyle @ str '' '' @ alignStyle (alignmentAt as i)
       @ str '' font-weight: bold;'' @ [DQUOTE]"

definition thMarkup :: "jsstring list \<Rightarrow> nat \<Rightarrow> cell \<Rightarrow> jsstring" where
  "thMarkup as i c =
     str ''      <th '' @ thAttrs as i @ str ''>'' @ escapeHtml (content c) @ str ''</th>'' @ [NL]"

definition tdAttrs :: "jsstring list \<Rightarrow> nat \<Rightarrow> jsstring" where
  "tdAttrs as i =
     str ''style='' @ [DQUOTE] @ cellStyle @ str '' '' @ alignStyle (alignmentAt as i) @ [DQUOTE]"

definition tdMarkup :: "jsstring list \<Rightarrow> nat \<Rightarrow> cell \<Rightarrow> jsstring" where
  "tdMarkup as i c =
     str ''      <td '' @ tdAttrs as i @ str ''>'' @ escapeHtml (content c) @ str ''</td>'' @ [NL]"

definition rowMarkup :: "(nat \<Rightarrow> cell \<Rightarrow> jsstring) \<Rightarrow> row \<Rightarrow> jsstring" where
  "rowMarkup cellMarkup r =
     str ''    <tr>'' @ [NL]
     @ concat (map (\<lambda>i. cellMarkup i (cells r ! i)) [0 ..< length (cells r)])
     @ str ''    </tr>'' @ [NL]"

definition tableModelToHtml :: "table \<Rightarrow> jsstring" where
  "tableModelToHtml t =
     (let headerRows = filter (\<lambda>r. isHeader r) (rows t);
          dataRows = filter (\<lambda>r. \<not> isHeader r) (rows t)
      in str ''<table style='' @ [DQUOTE] @ str ''border-collapse: collapse; border: 1px solid black;''
           @ [DQUOTE] @ str ''>'' @ [NL]
         @ (if length headerRows > 0
            then str ''  <thead>'' @ [NL]
                 @ concat (map (rowMarkup (thMarkup (alignments t))) headerRows)
                 @ str ''  </thead>'' @ [NL]
            else [])
         @ (if length dataRows > 0
            then str ''  <tbody>'' @ [NL]
                 @ concat (map (rowMarkup (tdMarkup (alignments t))) dataRows)
                 @ str ''  </tbody>'' @ [NL]
            else [])
         @ str ''</table>'')"

definition markdownToHtml :: "jsstring \<Rightarrow> jsstring option" where
  "markdownToHtml markdown =
     (case parseMarkdownTable markdown of None \<Rightarrow> None | Some t \<Rightarrow> Some (tableModelToHtml t))"

section \<open>Reading a table element (src/htmlToMarkdown.js)\<close>

text \<open>
  What \<open>htmlTableToModel\<close> and \<open>htmlToMarkdown\<close> read of the DOM. Of a cell element:
  \<open>textContent\<close>, \<open>getAttribute\<close> of \<open>colspan\<close>, \<open>rowspan\<close> and \<open>align\<close>
  (\<open>None\<close> for \<open>null\<close>) and \<open>style.textAlign\<close> (the empty string when the style has
  none). Of a row element: whether it is in the set \<open>theadRows\<close>, and
  \<open>tr.querySelectorAll('td, th')\<close>. Of the table element:
  \<open>querySelectorAll('tr')\<close> and \<open>querySelectorAll('td, th')\<close>, in document order.
\<close>

record cell_el =
  textContent :: jsstring
  colspanAttr :: "jsstring option"
  rowspanAttr :: "jsstring option"
  alignAttr :: "jsstring option"
  styleTextAlign :: jsstring

record tr_el =
  inThead :: bool
  cellElements :: "cell_el list"

record table_el =
  trElements :: "tr_el list"
  tdthElements :: "cell_el list"

text \<open>
  \<open>parseInt(s, 10)\<close>: leading whitespace is skipped, one sign is read, then the longest
  run of decimal digits; no digit gives \<open>NaN\<close>, which is \<open>None\<close> here. The result is an
  unbounded integer: the rounding of a number beyond \<open>2^53\<close> is not modelled.
\<close>

definition isDigit :: "nat \<Rightarrow> bool" where
  "isDigit c \<longleftrightarrow> 48 \<le> c \<and> c \<le> 57"

definition digitsValue :: "jsstring \<Rightarrow> nat" where
  "digitsValue ds = foldl (\<lambda>a d. 10 * a + (d - 48)) 0 ds"

definition parseInt10 :: "jsstring \<Rightarrow> int option" where
  "parseInt10 s =
     (let t = dropWhile isWhiteSpace s;
          negative = startsWith t MINUS;
          u = (if startsWith t MINUS \<or> startsWith t 43 then tl t else t);
          ds = takeWhile isDigit u
      in if ds = [] then None
         else Some (if negative then - int (digitsValue ds) else int (digitsValue ds)))"

text \<open>\<open>parseInt(cellEl.getAttribute(name) || '1', 10)\<close>: an absent and an empty
  attribute both read as \<open>'1'\<close>.\<close>

definition spanOf :: "jsstring option \<Rightarrow> int option" where
  "spanOf a = parseInt10 (case a of None \<Rightarrow> str ''1'' | Some v \<Rightarrow> if v = [] then str ''1'' else v)"

text \<open>Comparisons with \<open>NaN\<close> are false.\<close>

definition numLess :: "int \<Rightarrow> int option \<Rightarrow> bool" where
  "numLess c n = (case n of None \<Rightarrow> False | Some k \<Rightarrow> c < k)"

definition numGreater :: "int option \<Rightarrow> int \<Rightarrow> bool" where
  "numGreater n c = (case n of None \<Rightarrow> False | Some k \<Rightarrow> k > c)"

text \<open>\<open>cellEl.textContent.replace(/\s+/g, ' ').trim()\<close>: every maximal run of whitespace
  becomes one space. The flag says that the previous code unit was whitespace.\<close>

fun collapseFrom :: "bool \<Rightarrow> jsstring \<Rightarrow> jsstring" where
  "collapseFrom b [] = []"
| "collapseFrom b (c # s) =
     (if isWhiteSpace c then (if b then collapseFrom True s else SPACE # collapseFrom True s)
      else c # collapseFrom False s)"

definition cellText :: "cell_el \<Rightarrow> jsstring" where
  "cellText cellEl = trim (collapseFrom False (textContent cellEl))"

text \<open>\<open>cellEl.getAttribute('align') || (cellEl.style && cellEl.style.textAlign) || null\<close>\<close>

definition cellAlign :: "cell_el \<Rightarrow> jsstring option" where
  "cellAlign cellEl =
     (case alignAttr cellEl of
        Some a \<Rightarrow> if a \<noteq> [] then Some a
                  else if styleTextAlign cellEl \<noteq> [] then Some (styleTextAlign cellEl) else None
      | None \<Rightarrow> if styleTextAlign cellEl \<noteq> [] then Some (styleTextAlign cellEl) else None)"

text \<open>
  \<open>rowspanTracker\<close>, the ledger: a JavaScript array of \<open>{ remaining }\<close> objects with
  holes. An index beyond the length and a hole both read as \<open>undefined\<close>; an assignment
  beyond the length extends the array with holes.
\<close>

type_synonym tracker = "int option list"

definition owed :: "tracker \<Rightarrow> nat \<Rightarrow> bool" where
  "owed tr i = (i < length tr \<and> (case tr ! i of None \<Rightarrow> False | Some remaining \<Rightarrow> remaining > 0))"

definition decrementAt :: "tracker \<Rightarrow> nat \<Rightarrow> tracker" where
  "decrementAt tr i = tr[i := map_option (\<lambda>remaining. remaining - 1) (tr ! i)]"

definition assignAt :: "tracker \<Rightarrow> nat \<Rightarrow> int \<Rightarrow> tracker" where
  "assignAt tr i v =
     (if i < length tr then tr[i := Some v]
      else tr @ replicate (i - length tr) None @ [Some v])"

text \<open>The variables that the walk over one row changes.\<close>

record walk =
  cellsOut :: "cell list"
  ledger :: tracker
  alignmentsOut :: "jsstring list"
  colIdx :: nat

text \<open>The branch for an owed filler: an empty cell, the ledger decremented, the next column.\<close>

definition emitFiller :: "walk \<Rightarrow> walk" where
  "emitFiller w =
     w\<lparr>cellsOut := cellsOut w @ [createCell1 []],
       ledger := decrementAt (ledger w) (colIdx w),
       colIdx := colIdx w + 1\<rparr>"

text \<open>
  \<open>for (let c = 0; c < colspan; c++)\<close>: the expansion of one source cell. \<open>lc\<close> is
  \<open>String.prototype.toLowerCase\<close>; \<open>capture\<close> is \<open>isHeader && !alignmentsSet\<close>.
\<close>

function expandCell ::
  "(jsstring \<Rightarrow> jsstring) \<Rightarrow> bool \<Rightarrow> jsstring \<Rightarrow> int option \<Rightarrow> int option \<Rightarrow> jsstring option
     \<Rightarrow> int \<Rightarrow> walk \<Rightarrow> walk" where
  "expandCell lc capture content' colspan' rowspan' align c w =
     (if numLess c colspan'
      then
        (let cellContent = (if c = 0 then content' else []);
             w1 = w\<lparr>cellsOut := cellsOut w @ [createCell1 cellContent]\<rparr>;
             w2 = (case rowspan' of
                     None \<Rightarrow> w1
                   | Some r \<Rightarrow>
                       if r > 1 then w1\<lparr>ledger := assignAt (ledger w1) (colIdx w1) (r - 1)\<rparr>
                       else w1);
             w3 = (if capture
                   then (case align of
                           Some a \<Rightarrow> w2\<lparr>alignmentsOut := alignmentsOut w2 @ [lc a]\<rparr>
                         | None \<Rightarrow> w2\<lparr>alignmentsOut := alignmentsOut w2 @ [str ''left'']\<rparr>)
                   else w2)
         in expandCell lc capture content' colspan' rowspan' align (c + 1) (w3\<lparr>colIdx := colIdx w3 + 1\<rparr>))
      else w)"
  by pat_completeness auto
termination
  by (relation "measure (\<lambda>(lc, capture, content', colspan', rowspan', align, c, w).
        case colspan' of None \<Rightarrow> 0 | Some k \<Rightarrow> nat (k - c))")
     (auto simp: numLess_def split: option.splits)

declare expandCell.simps [simp del]

text \<open>The body of the first loop for a source cell element.\<close>

definition consumeCell :: "(jsstring \<Rightarrow> jsstring) \<Rightarrow> bool \<Rightarrow> cell_el \<Rightarrow> walk \<Rightarrow> walk" where
  "consumeCell lc capture cellEl w =
     expandCell lc capture (cellText cellEl) (spanOf (colspanAttr cellEl)) (spanOf (rowspanAttr cellEl))
       (cellAlign cellEl) 0 w"

text \<open>
  \<open>while (cellElIdx < cellElements.length || owed at colIdx)\<close>, with its \<open>continue\<close> and
  its \<open>break\<close>.
\<close>

function walkCells ::
  "(jsstring \<Rightarrow> jsstring) \<Rightarrow> bool \<Rightarrow> cell_el list \<Rightarrow> nat \<Rightarrow> walk \<Rightarrow> walk" where
  "walkCells lc capture els cellElIdx w =
     (if cellElIdx < length els \<or> owed (ledger w) (colIdx w)
      then
        (if owed (ledger w) (colIdx w) then walkCells lc capture els cellElIdx (emitFiller w)
         else if cellElIdx \<ge> length els then w
         else walkCells lc capture els (cellElIdx + 1) (consumeCell lc capture (els ! cellElIdx) w))
      else w)"
  by pat_completeness auto
termination
  by (relation "measures [\<lambda>(lc, capture, els, cellElIdx, w). length els - cellElIdx,
                          \<lambda>(lc, capture, els, cellElIdx, w). length (ledger w) - colIdx w]")
     (auto simp: owed_def emitFiller_def decrementAt_def)

declare walkCells.simps [simp del]

text \<open>\<open>while (owed at colIdx)\<close> after the first loop.\<close>

function drainFillers :: "walk \<Rightarrow> walk" where
  "drainFillers w = (if owed (ledger w) (colIdx w) then drainFillers (emitFiller w) else w)"
  by pat_completeness auto
termination
  by (relation "measure (\<lambda>w. length (ledger w) - colIdx w)")
     (auto simp: owed_def emitFiller_def decrementAt_def)

declare drainFillers.simps [simp del]

text \<open>The variables of \<open>htmlTableToModel\<close> that live across rows.\<close>

record parse =
  rowsOut :: "row list"
  alignmentsAcc :: "jsstring list"
  alignmentsSet :: bool
  rowspanTracker :: tracker

text \<open>The body of the loop over \<open>trElements\<close> for the row \<open>tr\<close> at \<open>rowIdx\<close>.\<close>

definition processRow ::
  "(jsstring \<Rightarrow> jsstring) \<Rightarrow> bool \<Rightarrow> nat \<Rightarrow> tr_el \<Rightarrow> parse \<Rightarrow> parse" where
  "processRow lc treatFirstAsHeader rowIdx tr p =
     (let hdr = (inThead tr \<or> (treatFirstAsHeader \<and> rowIdx = 0));
          w0 = \<lparr>cellsOut = [], ledger = rowspanTracker p, alignmentsOut = alignmentsAcc p, colIdx = 0\<rparr>;
          w1 = walkCells lc (hdr \<and> \<not> alignmentsSet p) (cellElements tr) 0 w0;
          w2 = drainFillers w1
      in \<lparr>rowsOut = rowsOut p @ [createRow (cellsOut w2) hdr],
          alignmentsAcc = alignmentsOut w2,
          alignmentsSet = (alignmentsSet p \<or> hdr),
          rowspanTracker = ledger w2\<rparr>)"

fun processRows ::
  "(jsstring \<Rightarrow> jsstring) \<Rightarrow> bool \<Rightarrow> nat \<Rightarrow> tr_el list \<Rightarrow> parse \<Rightarrow> parse" where
  "processRows lc treatFirstAsHeader rowIdx [] p = p"
| "processRows lc treatFirstAsHeader rowIdx (tr # trs) p =
     processRows lc treatFirstAsHeader (rowIdx + 1) trs (processRow lc treatFirstAsHeader rowIdx tr p)"

definition htmlTableToModel :: "(jsstring \<Rightarrow> jsstring) \<Rightarrow> table_el \<Rightarrow> table option" where
  "htmlTableToModel lc tableEl =
     (if length (trElements tableEl) = 0 then None
      else
        (let treatFirstAsHeader = \<not> list_ex inThead (trElements tableEl);
             p = processRows lc treatFirstAsHeader 0 (trElements tableEl)
                   \<lparr>rowsOut = [], alignmentsAcc = [], alignmentsSet = False, rowspanTracker = []\<rparr>
         in Some (normalizeTable (createTable (rowsOut p) (alignmentsAcc p)))))"

section \<open>The table element that a browser builds from the generated markup\<close>

text \<open>
  Between \<open>tableModelToHtml\<close> and \<open>htmlTableToModel\<close> stands the HTML parser of the
  browser, as in test/roundTrip.test.js:
  \<open>new DOMParser().parseFromString(html, 'text/html').querySelector('table')\<close>.
  It is no code of the repository. This is a reader for the markup that
  \<open>tableModelToHtml\<close> writes, and only for that: tags are what stands between \<open><\<close> and
  \<open>>\<close>, the row and cell tags build the rows, the text of a cell is the text between its
  two tags with the four character references of \<open>escapeHtml\<close> decoded, a carriage return
  is read as a line feed (and swallows a line feed that follows it) and NUL is dropped
  from text, as the HTML standard has it. The cells get no \<open>colspan\<close>, \<open>rowspan\<close> or
  \<open>align\<close> attribute, since the markup writes none, and \<open>style.textAlign\<close> is what follows
  \<open>text-align:\<close> in the tag.
\<close>

abbreviation (input) CR :: nat where "CR \<equiv> 13"
abbreviation (input) NUL :: nat where "NUL \<equiv> 0"
abbreviation (input) SEMICOLON :: nat where "SEMICOLON \<equiv> 59"

function decodeEntities :: "jsstring \<Rightarrow> jsstring" where
  "decodeEntities [] = []"
| "decodeEntities (c # s) =
     (if c = AMP \<and> take 4 s = str ''amp;'' then AMP # decodeEntities (drop 4 s)
      else if c = AMP \<and> take 3 s = str ''lt;'' then LT # decodeEntities (drop 3 s)
      else if c = AMP \<and> take 3 s = str ''gt;'' then GT # decodeEntities (drop 3 s)
      else if c = AMP \<and> take 5 s = str ''quot;'' then DQUOTE # decodeEntities (drop 5 s)
      else c # decodeEntities s)"
  by pat_completeness auto
termination
  by (relation "measure length") auto

fun findAfter :: "jsstring \<Rightarrow> jsstring \<Rightarrow> jsstring option" where
  "findAfter pat [] = (if pat = [] then Some [] else None)"
| "findAfter pat (x # xs) =
     (if take (length pat) (x # xs) = pat then Some (drop (length pat) (x # xs))
      else findAfter pat xs)"

definition textAlignOf :: "jsstring \<Rightarrow> jsstring" where
  "textAlignOf tagSource =
     (case findAfter (str ''text-align:'') tagSource of
        None \<Rightarrow> []
      | Some rest \<Rightarrow> takeWhile (\<lambda>c. c \<noteq> SEMICOLON \<and> c \<noteq> DQUOTE) (dropWhile isWhiteSpace rest))"

record reader =
  inTag :: bool
  lastCR :: bool
  pending :: jsstring
  sawTable :: bool
  theadOpen :: bool
  rowsRead :: "tr_el list"
  rowInThead :: bool
  rowCells :: "cell_el list"
  cellTagSource :: jsstring
  cellTextAcc :: "jsstring option"

definition flushText :: "reader \<Rightarrow> reader" where
  "flushText r =
     (case cellTextAcc r of
        None \<Rightarrow> r
      | Some acc \<Rightarrow> r\<lparr>cellTextAcc := Some (acc @ filter (\<lambda>x. x \<noteq> NUL) (decodeEntities (pending r)))\<rparr>)"

definition applyTag :: "jsstring \<Rightarrow> reader \<Rightarrow> reader" where
  "applyTag tagSource r =
     (let name = takeWhile (\<lambda>c. c \<noteq> SPACE) tagSource
      in if name = str ''table'' then r\<lparr>sawTable := True\<rparr>
         else if name = str ''thead'' then r\<lparr>theadOpen := True\<rparr>
         else if name = str ''/thead'' then r\<lparr>theadOpen := False\<rparr>
         else if name = str ''tr'' then r\<lparr>rowInThead := theadOpen r, rowCells := []\<rparr>
         else if name = str ''/tr''
           then r\<lparr>rowsRead := rowsRead r @ [\<lparr>inThead = rowInThead r, cellElements = rowCells r\<rparr>]\<rparr>
         else if name = str ''th'' \<or> name = str ''td''
           then r\<lparr>cellTagSource := tagSource, cellTextAcc := Some []\<rparr>
         else if name = str ''/th'' \<or> name = str ''/td''
           then (case cellTextAcc r of
                   None \<Rightarrow> r
                 | Some t \<Rightarrow>
                     r\<lparr>rowCells := rowCells r @
                          [\<lparr>textContent = t, colspanAttr = None, rowspanAttr = None, alignAttr = None,
                            styleTextAlign = textAlignOf (cellTagSource r)\<rparr>],
                       cellTextAcc := None\<rparr>)
         else r)"

definition feed :: "nat \<Rightarrow> reader \<Rightarrow> reader" where
  "feed c r =
     (if inTag r
      then (if c = GT then (applyTag (pending r) r)\<lparr>inTag := False, pending := []\<rparr>
            else r\<lparr>pending := pending r @ [c]\<rparr>)
      else (if c = LT then (flushText r)\<lparr>inTag := True, pending := []\<rparr>
            else r\<lparr>pending := pending r @ [c]\<rparr>))"

text \<open>
  For the statements about the reader: the text that a run of code units leaves, with
  the carriage returns read as line feeds, and whether the run ends with a carriage
  return. The flag says that the code unit before was a carriage return.
\<close>

fun newlinesFrom :: "bool \<Rightarrow> jsstring \<Rightarrow> jsstring" where
  "newlinesFrom f [] = []"
| "newlinesFrom f (x # xs) =
     (if x = CR then NL # newlinesFrom True xs
      else if x = NL \<and> f then newlinesFrom False xs
      else x # newlinesFrom False xs)"

fun crAfter :: "bool \<Rightarrow> jsstring \<Rightarrow> bool" where
  "crAfter f [] = f"
| "crAfter f (x # xs) = crAfter (x = CR) xs"

definition readStep :: "reader \<Rightarrow> nat \<Rightarrow> reader" where
  "readStep r c =
     (if c = CR then (feed NL r)\<lparr>lastCR := True\<rparr>
      else if c = NL \<and> lastCR r then r\<lparr>lastCR := False\<rparr>
      else (feed c r)\<lparr>lastCR := False\<rparr>)"

definition readerStart :: reader where
  "readerStart =
     \<lparr>inTag = False, lastCR = False, pending = [], sawTable = False, theadOpen = False,
      rowsRead = [], rowInThead = False, rowCells = [], cellTagSource = [], cellTextAcc = None\<rparr>"

definition readMarkup :: "reader \<Rightarrow> jsstring \<Rightarrow> reader" where
  "readMarkup r s = foldl readStep r s"

definition parsedTableElement :: "jsstring \<Rightarrow> table_el option" where
  "parsedTableElement html =
     (let r = readMarkup readerStart html
      in if sawTable r
         then Some \<lparr>trElements = rowsRead r, tdthElements = concat (map cellElements (rowsRead r))\<rparr>
         else None)"

text \<open>
  For the statements about the reader: its state between two elements and outside of a
  cell, and the cell element that it builds from the source of a cell tag and the
  content that was escaped into the cell.
\<close>

abbreviation (input) between ::
  "jsstring \<Rightarrow> bool \<Rightarrow> bool \<Rightarrow> tr_el list \<Rightarrow> bool \<Rightarrow> cell_el list \<Rightarrow> jsstring \<Rightarrow> reader" where
  "between p sw th rs rth cs src \<equiv>
     \<lparr>inTag = False, lastCR = False, pending = p, sawTable = sw, theadOpen = th, rowsRead = rs,
      rowInThead = rth, rowCells = cs, cellTagSource = src, cellTextAcc = None\<rparr>"

definition cellElementOf :: "jsstring \<Rightarrow> jsstring \<Rightarrow> cell_el" where
  "cellElementOf tagSource c =
     \<lparr>textContent = filter (\<lambda>x. x \<noteq> NUL) (newlinesFrom False c), colspanAttr = None,
      rowspanAttr = None, alignAttr = None, styleTextAlign = textAlignOf tagSource\<rparr>"

definition rowElementOf :: "bool \<Rightarrow> (nat \<Rightarrow> jsstring) \<Rightarrow> row \<Rightarrow> tr_el" where
  "rowElementOf th tagSource r =
     \<lparr>inThead = th,
      cellElements = map (\<lambda>i. cellElementOf (tagSource i) (content (cells r ! i))) [0 ..< length (cells r)]\<rparr>"

text \<open>The round trip of claim C1 and what it compares.\<close>

definition markdownHtmlRoundTrip :: "(jsstring \<Rightarrow> jsstring) \<Rightarrow> jsstring \<Rightarrow> table option" where
  "markdownHtmlRoundTrip lc md =
     (case parseMarkdownTable md of
        None \<Rightarrow> None
      | Some model1 \<Rightarrow>
          (case parsedTableElement (tableModelToHtml model1) of
             None \<Rightarrow> None
           | Some tableEl \<Rightarrow> htmlTableToModel lc tableEl))"

text \<open>A content as the round trip gives it back: NUL dropped, every run of whitespace made
  one space, the ends trimmed.\<close>

definition collapsedContent :: "jsstring \<Rightarrow> jsstring" where
  "collapsedContent c = trim (collapseFrom False (filter (\<lambda>x. x \<noteq> NUL) c))"

definition cellContents :: "table \<Rightarrow> jsstring list list" where
  "cellContents t = map (\<lambda>r. map content (cells r)) (rows t)"

section \<open>The sanitizer (htmlSanitizer.js)\<close>

text \<open>
  The document that \<open>new DOMParser().parseFromString(htmlString, 'text/html')\<close> returns, as
  the sanitizer reads and changes it: a tree of nodes. An element has its local name (in
  lower case, as the HTML parser stores it; \<open>tagName\<close> is the same name in upper case),
  its attributes in their order, and its child nodes. The parser is the browser's and a
  parameter of \<open>sanitizeWordHtml\<close>; it gives the document element.
\<close>

datatype node =
    TextNode jsstring
  | CommentNode jsstring
  | ElementNode jsstring "(jsstring \<times> jsstring) list" "node list"

text \<open>An element and the elements below it in document order; \<open>el.querySelectorAll('*')\<close>
  is this list without \<open>el\<close>.\<close>

fun elementsOf :: "node \<Rightarrow> node list" where
  "elementsOf (ElementNode name attrs kids) =
     ElementNode name attrs kids # concat (map elementsOf kids)"
| "elementsOf (TextNode t) = []"
| "elementsOf (CommentNode t) = []"

fun hasLocalName :: "jsstring \<Rightarrow> node \<Rightarrow> bool" where
  "hasLocalName name (ElementNode n attrs kids) = (n = name)"
| "hasLocalName name (TextNode t) = False"
| "hasLocalName name (CommentNode t) = False"

text \<open>\<open>doc.querySelector(name)\<close> for a type selector: the first element of that name.\<close>

definition querySelector :: "jsstring \<Rightarrow> node \<Rightarrow> node option" where
  "querySelector name doc = find (hasLocalName name) (elementsOf doc)"

text \<open>
  \<open>for (const el of table.querySelectorAll('*')) if (el.tagName.includes(':'))
  el.replaceWith(...el.childNodes)\<close>: an element with a colon in its name gives way to its
  child nodes. The list is taken before the loop and holds the elements below such an
  element too, which the loop meets later where they then stand.
\<close>

fun unwrapNamespaced :: "node \<Rightarrow> node list" where
  "unwrapNamespaced (ElementNode name attrs kids) =
     (if COLON \<in> set name then concat (map unwrapNamespaced kids)
      else [ElementNode name attrs (concat (map unwrapNamespaced kids))])"
| "unwrapNamespaced (TextNode t) = [TextNode t]"
| "unwrapNamespaced (CommentNode t) = [CommentNode t]"

text \<open>\<open>for (const el of table.querySelectorAll('col, colgroup')) el.remove()\<close>\<close>

fun removeColumns :: "node \<Rightarrow> node list" where
  "removeColumns (ElementNode name attrs kids) =
     (if name = str ''col'' \<or> name = str ''colgroup'' then []
      else [ElementNode name attrs (concat (map removeColumns kids))])"
| "removeColumns (TextNode t) = [TextNode t]"
| "removeColumns (CommentNode t) = [CommentNode t]"

text \<open>\<open>getAttribute\<close> (\<open>None\<close> for \<open>null\<close>), \<open>removeAttribute\<close> and \<open>setAttribute\<close>.\<close>

definition getAttribute :: "(jsstring \<times> jsstring) list \<Rightarrow> jsstring \<Rightarrow> jsstring option" where
  "getAttribute attrs name = map_of attrs name"

definition removeAttribute :: "jsstring \<Rightarrow> (jsstring \<times> jsstring) list \<Rightarrow> (jsstring \<times> jsstring) list" where
  "removeAttribute name attrs = filter (\<lambda>a. fst a \<noteq> name) attrs"

definition setAttribute ::
  "jsstring \<Rightarrow> jsstring \<Rightarrow> (jsstring \<times> jsstring) list \<Rightarrow> (jsstring \<times> jsstring) list" where
  "setAttribute name v attrs =
     (if map_of attrs name = None then attrs @ [(name, v)]
      else map (\<lambda>a. if fst a = name then (name, v) else a) attrs)"

text \<open>
  \<open>style.match(/text-align:\s*(left|center|right)/i)\<close> and \<open>alignMatch[1].toLowerCase()\<close>:
  the first place where \<open>text-align:\<close>, white space and one of the three words stand,
  letters of either case, and that word in lower case. \<open>None\<close> is no match.
\<close>

definition lowerAscii :: "nat \<Rightarrow> nat" where
  "lowerAscii c = (if 65 \<le> c \<and> c \<le> 90 then c + 32 else c)"

fun startsWithIgnoringCase :: "jsstring \<Rightarrow> jsstring \<Rightarrow> bool" where
  "startsWithIgnoringCase [] s = True"
| "startsWithIgnoringCase (p # ps) [] = False"
| "startsWithIgnoringCase (p # ps) (c # cs) = (lowerAscii c = p \<and> startsWithIgnoringCase ps cs)"

definition alignWord :: "jsstring \<Rightarrow> jsstring option" where
  "alignWord s =
     (let r = dropWhile isWhiteSpace s
      in if startsWithIgnoringCase (str ''left'') r then Some (str ''left'')
         else if startsWithIgnoringCase (str ''center'') r then Some (str ''center'')
         else if startsWithIgnoringCase (str ''right'') r then Some (str ''right'')
         else None)"

fun alignMatch :: "jsstring \<Rightarrow> jsstring option" where
  "alignMatch [] = None"
| "alignMatch (c # cs) =
     (if startsWithIgnoringCase (str ''text-align:'') (c # cs)
      then (case alignWord (drop 11 (c # cs)) of
              Some a \<Rightarrow> Some a
            | None \<Rightarrow> alignMatch cs)
      else alignMatch cs)"

text \<open>The body of the loop over \<open>allElements\<close>, on the attributes of one element.\<close>

definition cleanAttributes :: "(jsstring \<times> jsstring) list \<Rightarrow> (jsstring \<times> jsstring) list" where
  "cleanAttributes attrs =
     (let style = (case getAttribute attrs (str ''style'') of None \<Rightarrow> [] | Some v \<Rightarrow> v);
          matched = alignMatch style;
          align = (case getAttribute attrs (str ''align'') of
                     None \<Rightarrow> matched
                   | Some a \<Rightarrow> if a \<noteq> [] then Some a else matched);
          attrs1 = removeAttribute (str ''valign'')
                     (removeAttribute (str ''height'')
                        (removeAttribute (str ''width'')
                           (removeAttribute (str ''class'')
                              (removeAttribute (str ''style'') attrs))))
      in case align of
           None \<Rightarrow> attrs1
         | Some a \<Rightarrow> setAttribute (str ''align'') a attrs1)"

fun cleanElements :: "node \<Rightarrow> node" where
  "cleanElements (ElementNode name attrs kids) =
     ElementNode name (cleanAttributes attrs) (map cleanElements kids)"
| "cleanElements (TextNode t) = TextNode t"
| "cleanElements (CommentNode t) = CommentNode t"

text \<open>
  \<open>sanitizeWordHtml\<close>: \<open>None\<close> is \<open>null\<close>, and the other result is the table element
  itself, \<open>return table\<close>, after the three loops over what is below it and the removal of
  five attributes of its own.
\<close>

definition sanitizeWordHtml :: "(jsstring \<Rightarrow> node) \<Rightarrow> jsstring \<Rightarrow> node option" where
  "sanitizeWordHtml parseFromString htmlString =
     (let doc = parseFromString htmlString
      in case querySelector (str ''table'') doc of
           None \<Rightarrow> None
         | Some table \<Rightarrow>
             (case table of
                ElementNode name attrs kids \<Rightarrow>
                  (let kids1 = concat (map unwrapNamespaced kids);
                       kids2 = concat (map removeColumns kids1);
                       kids3 = map cleanElements kids2;
                       attrs1 = removeAttribute (str ''cellpadding'')
                                  (removeAttribute (str ''cellspacing'')
                                     (removeAttribute (str ''width'')
                                        (removeAttribute (str ''class'')
                                           (removeAttribute (str ''style'') attrs))))
                   in Some (ElementNode name attrs1 kids3))
              | TextNode t \<Rightarrow> None
              | CommentNode t \<Rightarrow> None))"

section \<open>The entry point \<open>htmlToMarkdown\<close> (src/htmlToMarkdown.js)\<close>

text \<open>\<open>`${n}`\<close> for an integer \<open>n\<close>: its decimal digits, with a sign when negative.\<close>

fun showNat :: "nat \<Rightarrow> jsstring" where
  "showNat n = (if n < 10 then [48 + n] else showNat (n div 10) @ [48 + n mod 10])"

declare showNat.simps [simp del]

definition showInt :: "int \<Rightarrow> jsstring" where
  "showInt i = (if i < 0 then MINUS # showNat (nat (- i)) else showNat (nat i))"

text \<open>The two warning texts; 8212 is the em dash of the first.\<close>

definition countWarning :: "int \<Rightarrow> jsstring" where
  "countWarning tableCount =
     str ''Found '' @ showInt tableCount @ str '' tables '' @ [8212]
       @ str '' only the first was converted.''"

definition mergedWarning :: jsstring where
  "mergedWarning = str ''Merged cells were expanded into separate cells.''"

definition isMerged :: "cell_el \<Rightarrow> bool" where
  "isMerged cellEl \<longleftrightarrow>
     numGreater (spanOf (colspanAttr cellEl)) 1 \<or> numGreater (spanOf (rowspanAttr cellEl)) 1"

text \<open>\<open>for (const cell of cells) { ... if (colspan > 1 || rowspan > 1) { push; break; } }\<close>\<close>

fun mergedCheck :: "cell_el list \<Rightarrow> jsstring list \<Rightarrow> jsstring list" where
  "mergedCheck [] ws = ws"
| "mergedCheck (cellEl # rest) ws =
     (if isMerged cellEl then ws @ [mergedWarning] else mergedCheck rest ws)"

record conversion =
  markdown :: jsstring
  warnings :: "jsstring list"

text \<open>
  A call either returns or throws; the only exception here is the \<open>TypeError\<close> of reading
  a property of \<open>undefined\<close>.
\<close>

datatype error = TypeError

text \<open>
  Lines 192 to 213, the statements of \<open>htmlToMarkdown\<close> after the two names \<open>tableEl\<close> and
  \<open>tableCount\<close> are bound, as a function of their values; \<open>None\<close> is \<open>undefined\<close> for
  both. \<open>htmlTableToModel(undefined)\<close> throws at its \<open>tableEl.querySelectorAll('tr')\<close>,
  and \<open>undefined > 1\<close> is false. \<open>Inr None\<close> is the result \<open>null\<close>.
\<close>

definition convertTable ::
  "(jsstring \<Rightarrow> jsstring) \<Rightarrow> table_el option \<Rightarrow> int option \<Rightarrow> error + conversion option" where
  "convertTable lc tableEl tableCount =
     (case tableEl of
        None \<Rightarrow> Inl TypeError
      | Some el \<Rightarrow>
          (case htmlTableToModel lc el of
             None \<Rightarrow> Inr None
           | Some model \<Rightarrow>
               (let ws1 = (case tableCount of
                             None \<Rightarrow> []
                           | Some n \<Rightarrow> if n > 1 then [countWarning n] else []);
                    ws2 = mergedCheck (tdthElements el) ws1
                in Inr (Some \<lparr>markdown = tableModelToMarkdown (Some model), warnings = ws2\<rparr>))))"

text \<open>
  \<open>const { table: tableEl, tableCount } = result\<close> reads the properties \<open>table\<close> and
  \<open>tableCount\<close> of \<open>result\<close>. That is the table element which \<open>sanitizeWordHtml\<close> returned:
  an \<open>HTMLTableElement\<close> has no property of either name and the sanitizer sets none, so
  both reads give \<open>undefined\<close>.
\<close>

definition tableProperty :: "node \<Rightarrow> table_el option" where
  "tableProperty result = None"

definition tableCountProperty :: "node \<Rightarrow> int option" where
  "tableCountProperty result = None"

definition htmlToMarkdown ::
  "(jsstring \<Rightarrow> node) \<Rightarrow> (jsstring \<Rightarrow> jsstring) \<Rightarrow> jsstring \<Rightarrow> error + conversion option" where
  "htmlToMarkdown parseFromString lc htmlString =
     (case sanitizeWordHtml parseFromString htmlString of
        None \<Rightarrow> Inr None
      | Some result \<Rightarrow> convertTable lc (tableProperty result) (tableCountProperty result))"

text \<open>
  The input of the test "warns when multiple tables are found" without its white space,
  and the document that the HTML parser builds from it: the parser supplies \<open>html\<close>,
  \<open>head\<close> and \<open>body\<close>, and a \<open>tbody\<close> around the row of each table.
\<close>

definition twoTablesHtml :: jsstring where
  "twoTablesHtml =
     str ''<table><tr><td>Table 1</td></tr></table><table><tr><td>Table 2</td></tr></table>''"

definition oneCellTable :: "jsstring \<Rightarrow> node" where
  "oneCellTable t =
     ElementNode (str ''table'') []
       [ElementNode (str ''tbody'') []
          [ElementNode (str ''tr'') [] [ElementNode (str ''td'') [] [TextNode t]]]]"

definition twoTablesDocument :: node where
  "twoTablesDocument =
     ElementNode (str ''html'') []
       [ElementNode (str ''head'') [] [],
        ElementNode (str ''body'') [] [oneCellTable (str ''Table 1''), oneCellTable (str ''Table 2'')]]"

section \<open>Facts about normalisation\<close>

lemma colspanSum_foldl: "foldl (\<lambda>count c. count + colspan c) a cs = a + sum_list (map colspan cs)"
  by (induction cs arbitrary: a) auto

lemma colspanSum_sum_list: "colspanSum cs = sum_list (map colspan cs)"
  by (simp add: colspanSum_def colspanSum_foldl)

lemma colspanSum_append: "colspanSum (cs @ ds) = colspanSum cs + colspanSum ds"
  by (simp add: colspanSum_sum_list)

lemma colspanSum_replicate_empty: "colspanSum (replicate k createCell0) = int k"
  by (induction k) (auto simp: colspanSum_sum_list createCell0_def createCell_def)

lemma colspanSum_all_one:
  "(\<forall>c \<in> set cs. colspan c = 1) \<Longrightarrow> colspanSum cs = int (length cs)"
  by (induction cs) (auto simp: colspanSum_sum_list)

lemma padCells_replicate:
  "padCells cs cur n = cs @ replicate (nat (n - cur)) createCell0"
proof (induction cs cur n rule: padCells.induct)
  case (1 cs cur n)
  show ?case
  proof (cases "cur < n")
    case True
    then have "nat (n - cur) = Suc (nat (n - (cur + 1)))" by simp
    with True 1 show ?thesis
      by (subst padCells.simps) (simp add: replicate_app_Cons_same)
  next
    case False
    then show ?thesis by (subst padCells.simps) simp
  qed
qed

lemma padAlignments_replicate:
  "padAlignments as n = as @ replicate (nat n - length as) (str ''left'')"
proof (induction as n rule: padAlignments.induct)
  case (1 as n)
  show ?case
  proof (cases "int (length as) < n")
    case True
    then have "nat n - length as = Suc (nat n - Suc (length as))" by linarith
    with True 1 show ?thesis
      by (subst padAlignments.simps) (simp add: replicate_app_Cons_same)
  next
    case False
    then have "nat n - length as = 0" by linarith
    with False show ?thesis by (subst padAlignments.simps) simp
  qed
qed

lemma getColumnCount_foldl_ge:
  "a \<le> foldl (\<lambda>mx r. let count = colspanSum (cells r) in if count > mx then count else mx) a rs"
proof (induction rs arbitrary: a)
  case Nil
  show ?case by simp
next
  case (Cons r rs)
  have "a \<le> (if colspanSum (cells r) > a then colspanSum (cells r) else a)" by simp
  also have "\<dots> \<le> foldl (\<lambda>mx r. let count = colspanSum (cells r) in if count > mx then count else mx)
      (if colspanSum (cells r) > a then colspanSum (cells r) else a) rs"
    by (rule Cons.IH)
  finally show ?case by (simp add: Let_def)
qed

lemma getColumnCount_foldl_Max:
  "foldl (\<lambda>mx r. let count = colspanSum (cells r) in if count > mx then count else mx) a rs
     = Max (insert a ((\<lambda>r. colspanSum (cells r)) ` set rs))"
proof (induction rs arbitrary: a)
  case Nil
  show ?case by simp
next
  case (Cons r rs)
  let ?f = "\<lambda>r. colspanSum (cells r)"
  have "Max (insert (if ?f r > a then ?f r else a) (?f ` set rs))
      = Max (insert a (insert (?f r) (?f ` set rs)))"
  proof (cases "?f r > a")
    case True
    have "Max (insert a (insert (?f r) (?f ` set rs))) = max a (Max (insert (?f r) (?f ` set rs)))"
      by (rule Max_insert) auto
    also have "\<dots> = Max (insert (?f r) (?f ` set rs))"
    proof -
      have "?f r \<le> Max (insert (?f r) (?f ` set rs))" by (rule Max_ge) auto
      with True have "a \<le> Max (insert (?f r) (?f ` set rs))" by linarith
      then show ?thesis by (rule max_absorb2)
    qed
    finally show ?thesis using True by simp
  next
    case False
    have "Max (insert a (insert (?f r) (?f ` set rs))) = Max (insert (?f r) (insert a (?f ` set rs)))"
      by (simp add: insert_commute)
    also have "\<dots> = max (?f r) (Max (insert a (?f ` set rs)))"
      by (rule Max_insert) auto
    also have "\<dots> = Max (insert a (?f ` set rs))"
    proof -
      have "a \<le> Max (insert a (?f ` set rs))" by (rule Max_ge) auto
      with False have "?f r \<le> Max (insert a (?f ` set rs))" by linarith
      then show ?thesis by (rule max_absorb2)
    qed
    finally show ?thesis using False by simp
  qed
  with Cons.IH [of "if ?f r > a then ?f r else a"] show ?case
    by (simp add: Let_def)
qed

lemma getColumnCount_Max:
  "getColumnCount t = Max (insert 0 ((\<lambda>r. colspanSum (cells r)) ` set (rows t)))"
  by (simp add: getColumnCount_def getColumnCount_foldl_Max)

lemma getColumnCount_nonneg: "0 \<le> getColumnCount t"
  unfolding getColumnCount_def by (rule getColumnCount_foldl_ge)

lemma getColumnCount_ge_row:
  "r \<in> set (rows t) \<Longrightarrow> colspanSum (cells r) \<le> getColumnCount t"
  unfolding getColumnCount_Max by (rule Max_ge) auto

lemma normalizeTable_rows:
  "rows (normalizeTable t) = map (normalizeRow (getColumnCount t)) (rows t)"
  by (simp add: normalizeTable_def Let_def)

lemma normalizeTable_alignments:
  "alignments (normalizeTable t) =
     take (nat (getColumnCount t))
       (alignments t @ replicate (nat (getColumnCount t) - length (alignments t)) (str ''left''))"
  using getColumnCount_nonneg [of t]
  by (simp add: normalizeTable_def Let_def slice0_def padAlignments_replicate)

lemma normalizeRow_cells:
  "cells (normalizeRow n r) = cells r @ replicate (nat (n - colspanSum (cells r))) createCell0"
  by (simp add: normalizeRow_def padCells_replicate)

lemma normalizeRow_colspanSum:
  "colspanSum (cells r) \<le> n \<Longrightarrow> colspanSum (cells (normalizeRow n r)) = n"
  by (simp add: normalizeRow_cells colspanSum_append colspanSum_replicate_empty)

lemma normalizeRow_full: "colspanSum (cells r) = n \<Longrightarrow> normalizeRow n r = r"
  by (simp add: normalizeRow_def padCells_replicate)

lemma getColumnCount_normalizeTable: "getColumnCount (normalizeTable t) = getColumnCount t"
proof (cases "rows t = []")
  case True
  then show ?thesis by (simp add: getColumnCount_Max normalizeTable_rows)
next
  case False
  let ?n = "getColumnCount t"
  have "(\<lambda>r. colspanSum (cells r)) ` set (rows (normalizeTable t)) = {?n}"
  proof -
    have "\<And>r. r \<in> set (rows t) \<Longrightarrow> colspanSum (cells (normalizeRow ?n r)) = ?n"
      by (simp add: normalizeRow_colspanSum getColumnCount_ge_row)
    then have "(\<lambda>r. colspanSum (cells r)) ` set (rows (normalizeTable t)) = (\<lambda>r. ?n) ` set (rows t)"
      by (simp add: normalizeTable_rows image_image)
    moreover from False have "set (rows t) \<noteq> {}" by simp
    ultimately show ?thesis by (simp add: image_constant_conv)
  qed
  then have "getColumnCount (normalizeTable t) = Max {0, ?n}"
    by (simp add: getColumnCount_Max)
  with getColumnCount_nonneg [of t] show ?thesis by simp
qed

lemma normalizeTable_idem: "normalizeTable (normalizeTable t) = normalizeTable t"
proof -
  let ?n = "getColumnCount t"
  let ?u = "normalizeTable t"
  have rows_eq: "rows (normalizeTable ?u) = rows ?u"
  proof -
    have "\<And>r. r \<in> set (rows t) \<Longrightarrow> normalizeRow ?n (normalizeRow ?n r) = normalizeRow ?n r"
      by (rule normalizeRow_full) (simp add: normalizeRow_colspanSum getColumnCount_ge_row)
    then show ?thesis
      by (simp add: normalizeTable_rows getColumnCount_normalizeTable)
  qed
  have len: "length (alignments ?u) = nat ?n"
    by (simp add: normalizeTable_alignments)
  have al_eq: "alignments (normalizeTable ?u) = alignments ?u"
    by (simp add: normalizeTable_alignments [of ?u] getColumnCount_normalizeTable len)
  from rows_eq al_eq show ?thesis by simp
qed

lemma nth_rows_normalize:
  "i < length (rows t) \<Longrightarrow> rows (normalizeTable t) ! i = normalizeRow (getColumnCount t) (rows t ! i)"
  by (simp add: normalizeTable_rows)

lemma normalizeRow_isHeader: "isHeader (normalizeRow n r) = isHeader r"
  by (simp add: normalizeRow_def)

text \<open>
  Claim C2, as amended. With \<open>n = getColumnCount t\<close>, the maximum of 0 and of the sums of
  colspans of the rows of \<open>t\<close>: \<open>normalizeTable\<close> keeps the number of rows; every row
  becomes its old cells followed by empty cells (content \<open>""\<close>, colspan 1, rowspan 1), as
  many as its colspans fell short of \<open>n\<close>, so that its colspans sum to \<open>n\<close>; a row
  whose cells all had colspan 1 ends with exactly \<open>n\<close> cells; and the alignments are the
  old ones, filled up with \<open>'left'\<close> and cut to length \<open>n\<close>.
\<close>

theorem normalizeTable_shape:
  "let n = getColumnCount t; u = normalizeTable t in
     n = Max (insert 0 ((\<lambda>r. colspanSum (cells r)) ` set (rows t))) \<and>
     length (rows u) = length (rows t) \<and>
     (\<forall>i < length (rows t).
        cells (rows u ! i) =
          cells (rows t ! i) @ replicate (nat (n - colspanSum (cells (rows t ! i)))) (createCell [] 1 1) \<and>
        colspanSum (cells (rows u ! i)) = n \<and>
        ((\<forall>c \<in> set (cells (rows t ! i)). colspan c = 1) \<longrightarrow>
           int (length (cells (rows u ! i))) = n)) \<and>
     int (length (alignments u)) = n \<and>
     alignments u =
       take (nat n) (alignments t @ replicate (nat n - length (alignments t)) (str ''left''))"
proof -
  let ?n = "getColumnCount t"
  let ?u = "normalizeTable t"
  have rowwise: "cells (rows ?u ! i) =
          cells (rows t ! i) @ replicate (nat (?n - colspanSum (cells (rows t ! i)))) (createCell [] 1 1) \<and>
        colspanSum (cells (rows ?u ! i)) = ?n \<and>
        ((\<forall>c \<in> set (cells (rows t ! i)). colspan c = 1) \<longrightarrow>
           int (length (cells (rows ?u ! i))) = ?n)" if i: "i < length (rows t)" for i
  proof -
    let ?r = "rows t ! i"
    from i have mem: "?r \<in> set (rows t)" by simp
    then have le: "colspanSum (cells ?r) \<le> ?n" by (rule getColumnCount_ge_row)
    have eq: "rows ?u ! i = normalizeRow ?n ?r" using i by (rule nth_rows_normalize)
    have c1: "cells (rows ?u ! i) = cells ?r @ replicate (nat (?n - colspanSum (cells ?r))) (createCell [] 1 1)"
      by (simp add: eq normalizeRow_cells createCell0_def)
    have c2: "colspanSum (cells (rows ?u ! i)) = ?n"
      using le by (simp add: eq normalizeRow_colspanSum)
    have c3: "int (length (cells (rows ?u ! i))) = ?n" if "\<forall>c \<in> set (cells ?r). colspan c = 1"
    proof -
      from that have "colspanSum (cells ?r) = int (length (cells ?r))" by (rule colspanSum_all_one)
      with le show ?thesis by (simp add: c1)
    qed
    from c1 c2 c3 show ?thesis by blast
  qed
  have len: "int (length (alignments ?u)) = ?n"
    using getColumnCount_nonneg [of t] by (simp add: normalizeTable_alignments)
  have mx: "?n = Max (insert 0 ((\<lambda>r. colspanSum (cells r)) ` set (rows t)))"
    by (rule getColumnCount_Max)
  have lr: "length (rows ?u) = length (rows t)"
    by (simp add: normalizeTable_rows)
  have al: "alignments ?u =
       take (nat ?n) (alignments t @ replicate (nat ?n - length (alignments t)) (str ''left''))"
    by (rule normalizeTable_alignments)
  from mx lr rowwise len al show ?thesis
    unfolding Let_def by blast
qed

theorem normalizeTable_shape_witness:
  "getColumnCount
     \<lparr>alignments = [str ''center''],
      rows = [\<lparr>isHeader = True, cells = [createCell (str ''A'') 1 1, createCell (str ''B'') 1 1,
                                         createCell (str ''C'') 1 1]\<rparr>,
              \<lparr>isHeader = False, cells = [createCell (str ''1'') 1 1, createCell (str ''2'') 1 1]\<rparr>]\<rparr> = 3 \<and>
   cells (rows (normalizeTable
     \<lparr>alignments = [str ''center''],
      rows = [\<lparr>isHeader = True, cells = [createCell (str ''A'') 1 1, createCell (str ''B'') 1 1,
                                         createCell (str ''C'') 1 1]\<rparr>,
              \<lparr>isHeader = False, cells = [createCell (str ''1'') 1 1, createCell (str ''2'') 1 1]\<rparr>]\<rparr>) ! 1)
     = [createCell (str ''1'') 1 1, createCell (str ''2'') 1 1, createCell [] 1 1] \<and>
   alignments (normalizeTable
     \<lparr>alignments = [str ''center''],
      rows = [\<lparr>isHeader = True, cells = [createCell (str ''A'') 1 1, createCell (str ''B'') 1 1,
                                         createCell (str ''C'') 1 1]\<rparr>,
              \<lparr>isHeader = False, cells = [createCell (str ''1'') 1 1, createCell (str ''2'') 1 1]\<rparr>]\<rparr>)
     = [str ''center'', str ''left'', str ''left'']"
  using normalizeTable_shape [of
     "\<lparr>alignments = [str ''center''],
      rows = [\<lparr>isHeader = True, cells = [createCell (str ''A'') 1 1, createCell (str ''B'') 1 1,
                                         createCell (str ''C'') 1 1]\<rparr>,
              \<lparr>isHeader = False, cells = [createCell (str ''1'') 1 1, createCell (str ''2'') 1 1]\<rparr>]\<rparr>"]
  by (simp add: Let_def getColumnCount_def colspanSum_def createCell_def numeral_eq_Suc less_Suc_eq_0_disj)

text \<open>
  Claim C2 as stated fails for a cell that spans two columns: the column count is 2 and
  the only row keeps its single cell.
\<close>

theorem normalizeTable_cell_count_counterexample:
  "getColumnCount \<lparr>alignments = [], rows = [\<lparr>isHeader = False, cells = [createCell (str ''x'') 2 1]\<rparr>]\<rparr> = 2 \<and>
   length (cells (hd (rows (normalizeTable
      \<lparr>alignments = [], rows = [\<lparr>isHeader = False, cells = [createCell (str ''x'') 2 1]\<rparr>]\<rparr>)))) = 1"
  by (simp add: getColumnCount_def colspanSum_def createCell_def normalizeTable_rows normalizeRow_cells)

lemma normalizeTableRef_Some:
  "s p = Some t \<Longrightarrow> normalizeTableRef s p = Some (s(p \<mapsto> normalizeTable t), p)"
  by (simp add: normalizeTableRef_def normalizeTable_def Let_def)

text \<open>
  Claim C5. Normalising twice gives what normalising once gives. On the store, the call
  overwrites the object that its argument points to, leaves every other object alone and
  returns the argument; a second call changes nothing.
\<close>

theorem normalizeTable_idempotent:
  "normalizeTable (normalizeTable t) = normalizeTable t \<and>
   (s p = Some t \<longrightarrow>
      normalizeTableRef s p = Some (s(p \<mapsto> normalizeTable t), p) \<and>
      normalizeTableRef (s(p \<mapsto> normalizeTable t)) p = Some (s(p \<mapsto> normalizeTable t), p))"
proof -
  have "normalizeTableRef (s(p \<mapsto> normalizeTable t)) p
      = Some ((s(p \<mapsto> normalizeTable t))(p \<mapsto> normalizeTable (normalizeTable t)), p)"
    by (rule normalizeTableRef_Some) simp
  then have "normalizeTableRef (s(p \<mapsto> normalizeTable t)) p = Some (s(p \<mapsto> normalizeTable t), p)"
    by (simp add: normalizeTable_idem)
  then show ?thesis
    by (simp add: normalizeTable_idem normalizeTableRef_Some)
qed

theorem normalizeTable_idempotent_witness:
  "(Map.empty(0 \<mapsto> \<lparr>alignments = [], rows = [\<lparr>isHeader = True, cells = [createCell (str ''a'') 1 1]\<rparr>]\<rparr>)) 0
     = Some \<lparr>alignments = [], rows = [\<lparr>isHeader = True, cells = [createCell (str ''a'') 1 1]\<rparr>]\<rparr> \<and>
   map_option snd (normalizeTableRef
     (Map.empty(0 \<mapsto> \<lparr>alignments = [], rows = [\<lparr>isHeader = True, cells = [createCell (str ''a'') 1 1]\<rparr>]\<rparr>)) 0)
     = Some 0 \<and>
   map_option (\<lambda>r. fst r 0) (normalizeTableRef
     (Map.empty(0 \<mapsto> \<lparr>alignments = [], rows = [\<lparr>isHeader = True, cells = [createCell (str ''a'') 1 1]\<rparr>]\<rparr>)) 0)
     = Some (Some (normalizeTable
          \<lparr>alignments = [], rows = [\<lparr>isHeader = True, cells = [createCell (str ''a'') 1 1]\<rparr>]\<rparr>))"
  using normalizeTable_idempotent [of
     "\<lparr>alignments = [], rows = [\<lparr>isHeader = True, cells = [createCell (str ''a'') 1 1]\<rparr>]\<rparr>"
     "Map.empty(0 \<mapsto> \<lparr>alignments = [], rows = [\<lparr>isHeader = True, cells = [createCell (str ''a'') 1 1]\<rparr>]\<rparr>)"
     0]
  by simp

text \<open>
  Claim C10. \<open>normalizeTable\<close> only appends: the rows keep their number, order and
  \<open>isHeader\<close> flag; the old cells of every row are a prefix of its new cells, unchanged,
  and every cell behind them is an empty cell; every alignment that is kept is the old one
  at its position, every further one is \<open>'left'\<close>, and exactly \<open>getColumnCount t\<close>
  alignments remain.
\<close>

theorem normalizeTable_only_appends:
  "let n = getColumnCount t; u = normalizeTable t in
     length (rows u) = length (rows t) \<and>
     (\<forall>i < length (rows t).
        isHeader (rows u ! i) = isHeader (rows t ! i) \<and>
        take (length (cells (rows t ! i))) (cells (rows u ! i)) = cells (rows t ! i) \<and>
        (\<forall>c \<in> set (drop (length (cells (rows t ! i))) (cells (rows u ! i))).
           c = createCell [] 1 1)) \<and>
     (\<forall>j < length (alignments u).
        alignments u ! j = (if j < length (alignments t) then alignments t ! j else str ''left'')) \<and>
     length (alignments u) = nat n"
proof -
  let ?n = "getColumnCount t"
  let ?u = "normalizeTable t"
  have lr: "length (rows ?u) = length (rows t)"
    by (simp add: normalizeTable_rows)
  have rowwise: "isHeader (rows ?u ! i) = isHeader (rows t ! i) \<and>
        take (length (cells (rows t ! i))) (cells (rows ?u ! i)) = cells (rows t ! i) \<and>
        (\<forall>c \<in> set (drop (length (cells (rows t ! i))) (cells (rows ?u ! i))).
           c = createCell [] 1 1)" if "i < length (rows t)" for i
  proof -
    from that have eq: "rows ?u ! i = normalizeRow ?n (rows t ! i)" by (rule nth_rows_normalize)
    show ?thesis
      by (simp add: eq normalizeRow_isHeader normalizeRow_cells createCell0_def)
  qed
  have len: "length (alignments ?u) = nat ?n"
    by (simp add: normalizeTable_alignments)
  have al: "alignments ?u ! j = (if j < length (alignments t) then alignments t ! j else str ''left'')"
    if "j < length (alignments ?u)" for j
  proof -
    from that len have j: "j < nat ?n" by simp
    then show ?thesis
      by (simp add: normalizeTable_alignments nth_append)
  qed
  from lr rowwise al len show ?thesis
    unfolding Let_def by blast
qed

theorem normalizeTable_only_appends_witness:
  "isHeader (rows (normalizeTable
     \<lparr>alignments = [str ''right'', str ''center'', str ''left''],
      rows = [\<lparr>isHeader = True, cells = [createCell (str ''A'') 2 1]\<rparr>,
              \<lparr>isHeader = False, cells = [createCell (str ''1'') 1 1]\<rparr>]\<rparr>) ! 1) = False \<and>
   take 1 (cells (rows (normalizeTable
     \<lparr>alignments = [str ''right'', str ''center'', str ''left''],
      rows = [\<lparr>isHeader = True, cells = [createCell (str ''A'') 2 1]\<rparr>,
              \<lparr>isHeader = False, cells = [createCell (str ''1'') 1 1]\<rparr>]\<rparr>) ! 1))
     = [createCell (str ''1'') 1 1] \<and>
   length (alignments (normalizeTable
     \<lparr>alignments = [str ''right'', str ''center'', str ''left''],
      rows = [\<lparr>isHeader = True, cells = [createCell (str ''A'') 2 1]\<rparr>,
              \<lparr>isHeader = False, cells = [createCell (str ''1'') 1 1]\<rparr>]\<rparr>)) = 2"
  using normalizeTable_only_appends [of
     "\<lparr>alignments = [str ''right'', str ''center'', str ''left''],
      rows = [\<lparr>isHeader = True, cells = [createCell (str ''A'') 2 1]\<rparr>,
              \<lparr>isHeader = False, cells = [createCell (str ''1'') 1 1]\<rparr>]\<rparr>"]
  by (simp add: Let_def getColumnCount_def colspanSum_def createCell_def numeral_eq_Suc less_Suc_eq_0_disj)

section \<open>Facts about the Markdown parser and generator\<close>

lemma split_from_nonempty: "split_from c cur s \<noteq> []"
  by (induction s arbitrary: cur) auto

lemma splitUnescapedFrom_nonempty: "splitUnescapedFrom esc cur s \<noteq> []"
  by (induction s arbitrary: esc cur) auto

lemma parseCells_nonempty: "parseCells line \<noteq> []"
  by (simp add: parseCells_def splitUnescaped_def splitUnescapedFrom_nonempty)

lemma markdownLines_empty: "markdownLines [] = []"
  by (simp add: markdownLines_def split_on_def trim_def)

lemma findSeparator_None:
  "findSeparator ls i = None \<longleftrightarrow> (\<forall>j. i \<le> j \<and> j < length ls \<longrightarrow> \<not> SEPARATOR_RE (ls ! j))"
proof (induction ls i rule: findSeparator.induct)
  case (1 ls i)
  show ?case
  proof (cases "i < length ls")
    case False
    then show ?thesis by (subst findSeparator.simps) auto
  next
    case True
    show ?thesis
    proof (cases "SEPARATOR_RE (ls ! i)")
      case sep: True
      with True show ?thesis by (subst findSeparator.simps) auto
    next
      case sep: False
      have "findSeparator ls i = findSeparator ls (i + 1)"
        using True sep by (subst findSeparator.simps) simp
      also have "\<dots> = None \<longleftrightarrow> (\<forall>j. i + 1 \<le> j \<and> j < length ls \<longrightarrow> \<not> SEPARATOR_RE (ls ! j))"
        using 1 True sep by simp
      also have "\<dots> \<longleftrightarrow> (\<forall>j. i \<le> j \<and> j < length ls \<longrightarrow> \<not> SEPARATOR_RE (ls ! j))"
      proof
        assume h: "\<forall>j. i + 1 \<le> j \<and> j < length ls \<longrightarrow> \<not> SEPARATOR_RE (ls ! j)"
        show "\<forall>j. i \<le> j \<and> j < length ls \<longrightarrow> \<not> SEPARATOR_RE (ls ! j)"
        proof (intro allI impI)
          fix j assume j: "i \<le> j \<and> j < length ls"
          show "\<not> SEPARATOR_RE (ls ! j)"
          proof (cases "j = i")
            case True with sep show ?thesis by simp
          next
            case False with j h show ?thesis by simp
          qed
        qed
      next
        assume "\<forall>j. i \<le> j \<and> j < length ls \<longrightarrow> \<not> SEPARATOR_RE (ls ! j)"
        then show "\<forall>j. i + 1 \<le> j \<and> j < length ls \<longrightarrow> \<not> SEPARATOR_RE (ls ! j)" by simp
      qed
      finally show ?thesis .
    qed
  qed
qed

lemma findSeparator_Some:
  "findSeparator ls i = Some k \<Longrightarrow>
     i \<le> k \<and> k < length ls \<and> SEPARATOR_RE (ls ! k) \<and> (\<forall>j. i \<le> j \<and> j < k \<longrightarrow> \<not> SEPARATOR_RE (ls ! j))"
proof (induction ls i rule: findSeparator.induct)
  case (1 ls i)
  show ?case
  proof (cases "i < length ls")
    case False
    with "1.prems" show ?thesis by (subst (asm) findSeparator.simps) simp
  next
    case True
    show ?thesis
    proof (cases "SEPARATOR_RE (ls ! i)")
      case sep: True
      with True "1.prems" have "k = i" by (subst (asm) findSeparator.simps) simp
      with True sep show ?thesis by auto
    next
      case sep: False
      with True "1.prems" have "findSeparator ls (i + 1) = Some k"
        by (subst (asm) findSeparator.simps) simp
      with 1 True sep have ih: "i + 1 \<le> k \<and> k < length ls \<and> SEPARATOR_RE (ls ! k) \<and>
          (\<forall>j. i + 1 \<le> j \<and> j < k \<longrightarrow> \<not> SEPARATOR_RE (ls ! j))" by simp
      have "\<not> SEPARATOR_RE (ls ! j)" if "i \<le> j \<and> j < k" for j
      proof (cases "j = i")
        case True with sep show ?thesis by simp
      next
        case False with that ih show ?thesis by simp
      qed
      with ih show ?thesis by simp
    qed
  qed
qed

lemma findSeparator_None_set:
  "findSeparator ls 0 = None \<longleftrightarrow> \<not> (\<exists>l \<in> set ls. SEPARATOR_RE l)"
proof -
  have "(\<forall>j. j < length ls \<longrightarrow> \<not> SEPARATOR_RE (ls ! j)) \<longleftrightarrow> (\<forall>l \<in> set ls. \<not> SEPARATOR_RE l)"
    by (metis in_set_conv_nth)
  then show ?thesis by (simp add: findSeparator_None)
qed

lemma SEPARATOR_RE_shape:
  "SEPARATOR_RE s \<longleftrightarrow> (\<exists>mid. s = PIPE # mid @ [PIPE] \<and> mid \<noteq> [] \<and> (\<forall>c \<in> set mid. separatorClass c))"
proof
  assume h: "SEPARATOR_RE s"
  then have len: "3 \<le> length s" and hd: "hd s = PIPE" and lst: "last s = PIPE"
    and mid: "list_all separatorClass (butlast (tl s))"
    by (simp_all add: SEPARATOR_RE_def)
  from len have ne: "s \<noteq> []" "tl s \<noteq> []" by (cases s; auto)+
  have "s = hd s # tl s" using ne by simp
  also have "tl s = butlast (tl s) @ [last (tl s)]" using ne by simp
  also have "last (tl s) = last s" using ne by (simp add: last_tl)
  finally have "s = PIPE # butlast (tl s) @ [PIPE]" using hd lst by simp
  moreover from len have "butlast (tl s) \<noteq> []" by (cases s; cases "tl s"; auto)
  ultimately show "\<exists>mid. s = PIPE # mid @ [PIPE] \<and> mid \<noteq> [] \<and> (\<forall>c \<in> set mid. separatorClass c)"
    using mid by (auto simp: list_all_iff)
next
  assume "\<exists>mid. s = PIPE # mid @ [PIPE] \<and> mid \<noteq> [] \<and> (\<forall>c \<in> set mid. separatorClass c)"
  then obtain mid where "s = PIPE # mid @ [PIPE]" "mid \<noteq> []" "\<forall>c \<in> set mid. separatorClass c" by blast
  then show "SEPARATOR_RE s"
    by (cases mid) (auto simp: SEPARATOR_RE_def list_all_iff)
qed

lemma segmentAlignment_cases:
  "segmentAlignment seg = str ''left'' \<or> segmentAlignment seg = str ''center'' \<or> segmentAlignment seg = str ''right''"
  by (simp add: segmentAlignment_def Let_def)

lemma normalizeTable_wellFormed:
  assumes rows: "rows t \<noteq> []"
    and cls: "\<forall>r \<in> set (rows t). cells r \<noteq> [] \<and> (\<forall>c \<in> set (cells r). colspan c = 1 \<and> rowspan c = 1)"
    and als: "\<forall>a \<in> set (alignments t). a = str ''left'' \<or> a = str ''center'' \<or> a = str ''right''"
  shows "wellFormedTable (normalizeTable t)"
proof -
  let ?n = "getColumnCount t"
  let ?u = "normalizeTable t"
  from rows obtain r0 where r0: "r0 \<in> set (rows t)" by (cases "rows t") auto
  with cls have "colspanSum (cells r0) = int (length (cells r0))" "cells r0 \<noteq> []"
    by (simp_all add: colspanSum_all_one)
  with getColumnCount_ge_row [OF r0] have npos: "0 < ?n" by (cases "cells r0") auto
  have len: "length (alignments ?u) = nat ?n" by (simp add: normalizeTable_alignments)
  with npos have a1: "alignments ?u \<noteq> []" by auto
  have a2: "rows ?u \<noteq> []" using rows by (simp add: normalizeTable_rows)
  have a3: "length (cells r') = length (alignments ?u) \<and> (\<forall>c \<in> set (cells r'). colspan c = 1 \<and> rowspan c = 1)"
    if "r' \<in> set (rows ?u)" for r'
  proof -
    from that obtain r where r: "r \<in> set (rows t)" and r': "r' = normalizeRow ?n r"
      by (auto simp: normalizeTable_rows)
    from r cls have cs: "colspanSum (cells r) = int (length (cells r))"
      by (simp add: colspanSum_all_one)
    from getColumnCount_ge_row [OF r] cs have "length (cells r') = nat ?n"
      by (simp add: r' normalizeRow_cells)
    moreover have "\<forall>c \<in> set (cells r'). colspan c = 1 \<and> rowspan c = 1"
      using r cls by (auto simp: r' normalizeRow_cells createCell0_def createCell_def)
    ultimately show ?thesis by (simp add: len)
  qed
  have a4: "a = str ''left'' \<or> a = str ''center'' \<or> a = str ''right''"
    if "a \<in> set (alignments ?u)" for a
  proof -
    from that have "a \<in> set (alignments t @ replicate (nat ?n - length (alignments t)) (str ''left''))"
      unfolding normalizeTable_alignments by (rule in_set_takeD)
    with als show ?thesis by auto
  qed
  from a1 a2 a3 a4 show ?thesis
    unfolding wellFormedTable_def list_all_iff by blast
qed

lemma parseMarkdownTable_None:
  "parseMarkdownTable md = None \<longleftrightarrow>
     length (markdownLines md) < 2 \<or> findSeparator (markdownLines md) 0 = None"
  by (simp add: parseMarkdownTable_def Let_def split: option.splits)

lemma parseMarkdownTable_Some:
  assumes "parseMarkdownTable md = Some t"
  shows "\<exists>k. findSeparator (markdownLines md) 0 = Some k \<and> 2 \<le> length (markdownLines md) \<and>
     t = normalizeTable (createTable
           (map (\<lambda>line. createRow (map createCell1 (parseCells line)) True) (take k (markdownLines md))
            @ map (\<lambda>line. createRow (map createCell1 (parseCells line)) False) (drop (k + 1) (markdownLines md)))
           (parseAlignments (markdownLines md ! k)))"
  using assms by (auto simp: parseMarkdownTable_def Let_def split: option.splits if_splits)

lemma parseMarkdownTable_wellFormed:
  assumes "parseMarkdownTable md = Some t"
  shows "wellFormedTable t"
proof -
  let ?ls = "markdownLines md"
  from parseMarkdownTable_Some [OF assms] obtain k where
    k: "findSeparator ?ls 0 = Some k" and len: "2 \<le> length ?ls" and
    t: "t = normalizeTable (createTable
           (map (\<lambda>line. createRow (map createCell1 (parseCells line)) True) (take k ?ls)
            @ map (\<lambda>line. createRow (map createCell1 (parseCells line)) False) (drop (k + 1) ?ls))
           (parseAlignments (?ls ! k)))" by blast
  let ?rs = "map (\<lambda>line. createRow (map createCell1 (parseCells line)) True) (take k ?ls)
            @ map (\<lambda>line. createRow (map createCell1 (parseCells line)) False) (drop (k + 1) ?ls)"
  from findSeparator_Some [OF k] have klt: "k < length ?ls" by simp
  have "length ?rs = length ?ls - 1" using klt by simp
  with len have ne: "?rs \<noteq> []" by auto
  have cls: "\<forall>r \<in> set ?rs. cells r \<noteq> [] \<and> (\<forall>c \<in> set (cells r). colspan c = 1 \<and> rowspan c = 1)"
    by (auto simp: createRow_def createCell1_def createCell_def parseCells_nonempty)
  have als: "\<forall>a \<in> set (parseAlignments (?ls ! k)). a = str ''left'' \<or> a = str ''center'' \<or> a = str ''right''"
    using segmentAlignment_cases by (auto simp: parseAlignments_def Let_def)
  show ?thesis
    unfolding t
    by (rule normalizeTable_wellFormed) (use ne cls als in \<open>simp_all add: createTable_def\<close>)
qed

text \<open>
  Claim C4, as amended. \<open>parseMarkdownTable\<close> is a total function, so it never throws;
  it returns \<open>null\<close> exactly when the input is empty, has fewer than two non-empty
  trimmed lines, or has no such line that is a bar, then at least one code unit, all of
  them whitespace, \<open>:\<close>, \<open>|\<close> or \<open>-\<close>, then a bar; every other result is a
  well-formed table.
\<close>

theorem parseMarkdownTable_null_iff:
  "(parseMarkdownTable md = None \<longleftrightarrow>
      md = [] \<or> length (markdownLines md) < 2 \<or>
      \<not> (\<exists>l \<in> set (markdownLines md). \<exists>mid. l = PIPE # mid @ [PIPE] \<and> mid \<noteq> [] \<and>
            (\<forall>c \<in> set mid. isWhiteSpace c \<or> c = COLON \<or> c = PIPE \<or> c = MINUS))) \<and>
   (\<forall>t. parseMarkdownTable md = Some t \<longrightarrow> wellFormedTable t)"
proof -
  have e: "md = [] \<Longrightarrow> length (markdownLines md) < 2"
    by (simp add: markdownLines_empty)
  have "parseMarkdownTable md = None \<longleftrightarrow>
      length (markdownLines md) < 2 \<or> \<not> (\<exists>l \<in> set (markdownLines md). SEPARATOR_RE l)"
    by (simp add: parseMarkdownTable_None findSeparator_None_set)
  with e have "parseMarkdownTable md = None \<longleftrightarrow>
      md = [] \<or> length (markdownLines md) < 2 \<or> \<not> (\<exists>l \<in> set (markdownLines md). SEPARATOR_RE l)"
    by auto
  then show ?thesis
    unfolding SEPARATOR_RE_shape separatorClass_def
    using parseMarkdownTable_wellFormed by blast
qed

theorem parseMarkdownTable_null_iff_witness:
  "parseMarkdownTable (str ''not a table'') = None \<and>
   parseMarkdownTable [] = None \<and>
   (\<exists>t. parseMarkdownTable (str ''| A | B |'' @ [NL] @ str ''|---|--:|'' @ [NL] @ str ''| 1 |'') = Some t \<and>
        wellFormedTable t)"
proof -
  have l1: "markdownLines (str ''not a table'') = [str ''not a table'']"
    by (simp add: markdownLines_def split_on_def trim_def isWhiteSpace_def str_def)
  have l2: "markdownLines (str ''| A | B |'' @ [NL] @ str ''|---|--:|'' @ [NL] @ str ''| 1 |'')
      = [str ''| A | B |'', str ''|---|--:|'', str ''| 1 |'']"
    by (simp add: markdownLines_def split_on_def trim_def isWhiteSpace_def str_def)
  have s: "str ''|---|--:|'' = PIPE # str ''---|--:'' @ [PIPE]"
    by (simp add: str_def)
  have c: "\<forall>c \<in> set (str ''---|--:''). isWhiteSpace c \<or> c = COLON \<or> c = PIPE \<or> c = MINUS"
    by (simp add: str_def)
  have "parseMarkdownTable (str ''| A | B |'' @ [NL] @ str ''|---|--:|'' @ [NL] @ str ''| 1 |'') \<noteq> None"
    using parseMarkdownTable_null_iff [of "str ''| A | B |'' @ [NL] @ str ''|---|--:|'' @ [NL] @ str ''| 1 |''"]
      l2 s c
    by (auto simp: str_def)
  then show ?thesis
    using parseMarkdownTable_null_iff [of "str ''not a table''"] l1
      parseMarkdownTable_null_iff [of "[]"]
      parseMarkdownTable_null_iff [of "str ''| A | B |'' @ [NL] @ str ''|---|--:|'' @ [NL] @ str ''| 1 |''"]
    by auto
qed

text \<open>
  Claim C4 as stated fails on the two lines \<open>a\<close> and \<open>||\<close>: the second starts and ends
  with a bar and holds nothing else in between, yet \<open>SEPARATOR_RE\<close> asks for at least one
  code unit between its bars and the result is \<open>null\<close>.
\<close>

theorem parseMarkdownTable_worded_pattern_counterexample:
  "markdownLines (str ''a'' @ [NL] @ str ''||'') = [str ''a'', str ''||''] \<and>
   separatorPatternAsWorded (str ''||'') \<and>
   parseMarkdownTable (str ''a'' @ [NL] @ str ''||'') = None"
proof -
  have l: "markdownLines (str ''a'' @ [NL] @ str ''||'') = [str ''a'', str ''||'']"
    by (simp add: markdownLines_def split_on_def trim_def isWhiteSpace_def str_def)
  have w: "separatorPatternAsWorded (str ''||'')"
    by (simp add: separatorPatternAsWorded_def startsWith_def endsWith_def str_def)
  have "\<not> SEPARATOR_RE (str ''a'')" "\<not> SEPARATOR_RE (str ''||'')"
    by (simp_all add: SEPARATOR_RE_def str_def)
  with l have "parseMarkdownTable (str ''a'' @ [NL] @ str ''||'') = None"
    by (simp add: parseMarkdownTable_None findSeparator_None_set)
  with l w show ?thesis by simp
qed

lemma str_alignment_distinct:
  "str ''center'' \<noteq> str ''right''" "str ''center'' \<noteq> str ''left''" "str ''right'' \<noteq> str ''left''"
  "str ''right'' \<noteq> str ''center''" "str ''left'' \<noteq> str ''center''" "str ''left'' \<noteq> str ''right''"
  by (simp_all add: str_def)

lemma parseMarkdownTable_alignments:
  assumes "parseMarkdownTable md = Some t"
  shows "\<exists>k. findSeparator (markdownLines md) 0 = Some k \<and>
     (\<forall>i < length (alignments t).
        alignments t ! i =
          (if i < length (parseAlignments (markdownLines md ! k))
           then parseAlignments (markdownLines md ! k) ! i else str ''left''))"
proof -
  from parseMarkdownTable_Some [OF assms] obtain k where
    k: "findSeparator (markdownLines md) 0 = Some k" and
    t: "t = normalizeTable (createTable
           (map (\<lambda>line. createRow (map createCell1 (parseCells line)) True) (take k (markdownLines md))
            @ map (\<lambda>line. createRow (map createCell1 (parseCells line)) False) (drop (k + 1) (markdownLines md)))
           (parseAlignments (markdownLines md ! k)))" by blast
  let ?t0 = "createTable
           (map (\<lambda>line. createRow (map createCell1 (parseCells line)) True) (take k (markdownLines md))
            @ map (\<lambda>line. createRow (map createCell1 (parseCells line)) False) (drop (k + 1) (markdownLines md)))
           (parseAlignments (markdownLines md ! k))"
  have al: "alignments ?t0 = parseAlignments (markdownLines md ! k)" by (simp add: createTable_def)
  have "alignments t ! i = (if i < length (parseAlignments (markdownLines md ! k))
           then parseAlignments (markdownLines md ! k) ! i else str ''left'')"
    if "i < length (alignments t)" for i
  proof -
    from that have "i < nat (getColumnCount ?t0)" by (simp add: t normalizeTable_alignments)
    then show ?thesis
      unfolding t normalizeTable_alignments al by (simp add: nth_append)
  qed
  with k show ?thesis by blast
qed

text \<open>
  Claim C6. \<open>parseAlignments\<close> maps every segment of the separator line, cut at the bars
  after one leading and one trailing bar are removed, to its alignment: \<open>'center'\<close> exactly
  when the trimmed segment starts and ends with a colon, \<open>'right'\<close> exactly when it ends
  but does not start with one, \<open>'left'\<close> exactly when it does not end with one, a leading
  colon or not. In the parsed table the alignment of column \<open>i\<close> is the one of segment
  \<open>i\<close> of the first separator line, or \<open>'left'\<close> when that line has no such segment.
\<close>

theorem separator_segment_alignment:
  "parseAlignments line = map segmentAlignment (split_on PIPE (stripTrailingPipe (stripLeadingPipe line))) \<and>
   (segmentAlignment seg = str ''center'' \<longleftrightarrow> startsWith (trim seg) COLON \<and> endsWith (trim seg) COLON) \<and>
   (segmentAlignment seg = str ''right'' \<longleftrightarrow> \<not> startsWith (trim seg) COLON \<and> endsWith (trim seg) COLON) \<and>
   (segmentAlignment seg = str ''left'' \<longleftrightarrow> \<not> endsWith (trim seg) COLON) \<and>
   (parseMarkdownTable md = Some t \<longrightarrow>
      (\<exists>k. findSeparator (markdownLines md) 0 = Some k \<and>
        (\<forall>i < length (alignments t).
           alignments t ! i =
             (if i < length (parseAlignments (markdownLines md ! k))
              then parseAlignments (markdownLines md ! k) ! i else str ''left''))))"
proof -
  have p: "parseAlignments line = map segmentAlignment (split_on PIPE (stripTrailingPipe (stripLeadingPipe line)))"
    by (simp add: parseAlignments_def)
  have c: "segmentAlignment seg = str ''center'' \<longleftrightarrow> startsWith (trim seg) COLON \<and> endsWith (trim seg) COLON"
    by (simp add: segmentAlignment_def Let_def str_alignment_distinct)
  have r: "segmentAlignment seg = str ''right'' \<longleftrightarrow> \<not> startsWith (trim seg) COLON \<and> endsWith (trim seg) COLON"
    by (auto simp: segmentAlignment_def Let_def str_alignment_distinct)
  have l: "segmentAlignment seg = str ''left'' \<longleftrightarrow> \<not> endsWith (trim seg) COLON"
    by (auto simp: segmentAlignment_def Let_def str_alignment_distinct)
  from p c r l parseMarkdownTable_alignments show ?thesis by blast
qed

lemma parse_example_plain:
  "parseMarkdownTable (str ''| A | B |'' @ [NL] @ str ''|:-:|--:|'' @ [NL] @ str ''| x y |'')
  = Some \<lparr>alignments = [str ''center'', str ''right''],
       rows = [\<lparr>isHeader = True, cells = [createCell (str ''A'') 1 1, createCell (str ''B'') 1 1]\<rparr>,
               \<lparr>isHeader = False, cells = [createCell (str ''x y'') 1 1, createCell [] 1 1]\<rparr>]\<rparr>"
  by (simp add: parseMarkdownTable_def markdownLines_def split_on_def trim_def isWhiteSpace_def str_def
      findSeparator.simps SEPARATOR_RE_def separatorClass_def Let_def
      parseAlignments_def segmentAlignment_def stripLeadingPipe_def stripTrailingPipe_def
      startsWith_def endsWith_def parseCells_def splitUnescaped_def
      createRow_def createCell1_def createCell_def createTable_def
      normalizeTable_def getColumnCount_def colspanSum_def normalizeRow_def padCells.simps
      padAlignments.simps slice0_def createCell0_def)

theorem separator_segment_alignment_witness:
  "parseAlignments (str ''|:---|:-:| --: |---|:|'')
     = [str ''left'', str ''center'', str ''right'', str ''left'', str ''center''] \<and>
   startsWith (trim (str '':---'')) COLON \<and> \<not> endsWith (trim (str '':---'')) COLON \<and>
   segmentAlignment (str '':---'') = str ''left'' \<and>
   (\<exists>k. findSeparator (markdownLines (str ''| A | B |'' @ [NL] @ str ''|:-:|--:|'' @ [NL] @ str ''| x y |'')) 0
          = Some k \<and>
        parseAlignments (markdownLines (str ''| A | B |'' @ [NL] @ str ''|:-:|--:|'' @ [NL] @ str ''| x y |'') ! k)
          = [str ''center'', str ''right''])"
proof -
  have s: "split_on PIPE (stripTrailingPipe (stripLeadingPipe (str ''|:---|:-:| --: |---|:|'')))
      = [str '':---'', str '':-:'', str '' --: '', str ''---'', str '':'']"
    by (simp add: split_on_def stripTrailingPipe_def stripLeadingPipe_def str_def)
  have t: "trim (str '':---'') = str '':---''" "trim (str '':-:'') = str '':-:''"
    "trim (str '' --: '') = str ''--:''" "trim (str ''---'') = str ''---''" "trim (str '':'') = str '':''"
    by (simp_all add: trim_def isWhiteSpace_def str_def)
  have e: "startsWith (str '':---'') COLON" "\<not> endsWith (str '':---'') COLON"
    "startsWith (str '':-:'') COLON" "endsWith (str '':-:'') COLON"
    "\<not> startsWith (str ''--:'') COLON" "endsWith (str ''--:'') COLON"
    "\<not> endsWith (str ''---'') COLON"
    "startsWith (str '':'') COLON" "endsWith (str '':'') COLON"
    by (simp_all add: startsWith_def endsWith_def str_def)
  let ?md = "str ''| A | B |'' @ [NL] @ str ''|:-:|--:|'' @ [NL] @ str ''| x y |''"
  let ?m = "\<lparr>alignments = [str ''center'', str ''right''],
       rows = [\<lparr>isHeader = True, cells = [createCell (str ''A'') 1 1, createCell (str ''B'') 1 1]\<rparr>,
               \<lparr>isHeader = False, cells = [createCell (str ''x y'') 1 1, createCell [] 1 1]\<rparr>]\<rparr>"
  from separator_segment_alignment [of "[]" "[]" ?md ?m] parse_example_plain
  obtain k where k: "findSeparator (markdownLines ?md) 0 = Some k"
    and al: "\<forall>i < length (alignments ?m). alignments ?m ! i =
             (if i < length (parseAlignments (markdownLines ?md ! k))
              then parseAlignments (markdownLines ?md ! k) ! i else str ''left'')"
    by blast
  have ls: "markdownLines ?md = [str ''| A | B |'', str ''|:-:|--:|'', str ''| x y |'']"
    by (simp add: markdownLines_def split_on_def trim_def isWhiteSpace_def str_def)
  have "findSeparator [str ''| A | B |'', str ''|:-:|--:|'', str ''| x y |''] 0 = Some 1"
    by (simp add: findSeparator.simps SEPARATOR_RE_def separatorClass_def isWhiteSpace_def str_def)
  moreover from k have "findSeparator [str ''| A | B |'', str ''|:-:|--:|'', str ''| x y |''] 0 = Some k"
    unfolding ls .
  ultimately have "k = 1" by simp
  then have "markdownLines ?md ! k = str ''|:-:|--:|''"
    unfolding ls by simp
  then have pa: "parseAlignments (markdownLines ?md ! k) = [str ''center'', str ''right'']"
    by (simp add: parseAlignments_def split_on_def stripTrailingPipe_def stripLeadingPipe_def
        segmentAlignment_def trim_def isWhiteSpace_def startsWith_def endsWith_def Let_def str_def)
  have first: "parseAlignments (str ''|:---|:-:| --: |---|:|'')
     = [str ''left'', str ''center'', str ''right'', str ''left'', str ''center''] \<and>
   startsWith (trim (str '':---'')) COLON \<and> \<not> endsWith (trim (str '':---'')) COLON \<and>
   segmentAlignment (str '':---'') = str ''left''"
    using separator_segment_alignment [of "str ''|:---|:-:| --: |---|:|''" "str '':---''"]
      separator_segment_alignment [of "[]" "str '':-:''"]
      separator_segment_alignment [of "[]" "str '' --: ''"]
      separator_segment_alignment [of "[]" "str ''---''"]
      separator_segment_alignment [of "[]" "str '':''"]
    by (simp add: s t e)
  from k pa have "\<exists>k. findSeparator (markdownLines ?md) 0 = Some k \<and>
      parseAlignments (markdownLines ?md ! k) = [str ''center'', str ''right'']" by blast
  with first show ?thesis by blast
qed


















section \<open>Facts about the HTML parser and \<open>htmlToMarkdown\<close>\<close>

lemma expandCell_none:
  "\<not> numLess c colspan' \<Longrightarrow> expandCell lc capture content' colspan' rowspan' align c w = w"
  by (subst expandCell.simps) simp

lemma numLess_nonpositive:
  "colspan' = None \<or> (\<exists>k. colspan' = Some k \<and> k \<le> 0) \<Longrightarrow> \<not> numLess 0 colspan'"
  by (auto simp: numLess_def)

lemma consumeCell_nonpositive:
  "spanOf (colspanAttr cellEl) = None \<or> (\<exists>k. spanOf (colspanAttr cellEl) = Some k \<and> k \<le> 0) \<Longrightarrow>
     consumeCell lc capture cellEl w = w"
  unfolding consumeCell_def by (rule expandCell_none) (rule numLess_nonpositive)

lemma walkCells_consume:
  "cellElIdx < length els \<Longrightarrow> \<not> owed (ledger w) (colIdx w) \<Longrightarrow>
     walkCells lc capture els cellElIdx w
       = walkCells lc capture els (cellElIdx + 1) (consumeCell lc capture (els ! cellElIdx) w)"
  by (subst walkCells.simps) simp

lemma walkCells_filler:
  "owed (ledger w) (colIdx w) \<Longrightarrow>
     walkCells lc capture els cellElIdx w = walkCells lc capture els cellElIdx (emitFiller w)"
  by (subst walkCells.simps) simp

lemma walkCells_done:
  "\<not> cellElIdx < length els \<Longrightarrow> \<not> owed (ledger w) (colIdx w) \<Longrightarrow>
     walkCells lc capture els cellElIdx w = w"
  by (subst walkCells.simps) simp

lemma expandCell_ledger:
  "rowspan' = None \<or> (\<exists>k. rowspan' = Some k \<and> k \<le> 1) \<Longrightarrow>
     ledger (expandCell lc capture content' colspan' rowspan' align c w) = ledger w"
proof (induction lc capture content' colspan' rowspan' align c w rule: expandCell.induct)
  case (1 lc capture content' colspan' rowspan' align c w)
  show ?case
  proof (cases "numLess c colspan'")
    case False
    then show ?thesis by (simp add: expandCell_none)
  next
    case True
    show ?thesis
      apply (subst expandCell.simps)
      using True "1.prems" "1.IH"
      apply (auto simp: Let_def split: option.splits)
      done
  qed
qed

text \<open>
  Claim C9. A source cell whose \<open>colspan\<close> attribute parses to \<open>NaN\<close>, to zero or to a
  negative number leaves the walk as it was: no cell, no alignment, no ledger entry, the
  same column; the loop goes on with the next source cell, so the text of this one is
  lost. A source cell whose \<open>rowspan\<close> attribute parses to \<open>NaN\<close> or to a number that is
  not greater than 1 leaves the ledger as it was.
\<close>

theorem nonpositive_colspan_small_rowspan:
  "((spanOf (colspanAttr cellEl) = None \<or> (\<exists>k. spanOf (colspanAttr cellEl) = Some k \<and> k \<le> 0)) \<longrightarrow>
       consumeCell lc capture cellEl w = w \<and>
       (cellElIdx < length els \<and> els ! cellElIdx = cellEl \<and> \<not> owed (ledger w) (colIdx w) \<longrightarrow>
          walkCells lc capture els cellElIdx w = walkCells lc capture els (cellElIdx + 1) w)) \<and>
   ((spanOf (rowspanAttr cellEl) = None \<or> (\<exists>k. spanOf (rowspanAttr cellEl) = Some k \<and> k \<le> 1)) \<longrightarrow>
       ledger (consumeCell lc capture cellEl w) = ledger w)"
proof -
  have a: "consumeCell lc capture cellEl w = w"
    if "spanOf (colspanAttr cellEl) = None \<or> (\<exists>k. spanOf (colspanAttr cellEl) = Some k \<and> k \<le> 0)"
    using that by (rule consumeCell_nonpositive)
  have b: "walkCells lc capture els cellElIdx w = walkCells lc capture els (cellElIdx + 1) w"
    if "spanOf (colspanAttr cellEl) = None \<or> (\<exists>k. spanOf (colspanAttr cellEl) = Some k \<and> k \<le> 0)"
      and "cellElIdx < length els \<and> els ! cellElIdx = cellEl \<and> \<not> owed (ledger w) (colIdx w)"
    using that by (simp add: walkCells_consume consumeCell_nonpositive)
  have c: "ledger (consumeCell lc capture cellEl w) = ledger w"
    if "spanOf (rowspanAttr cellEl) = None \<or> (\<exists>k. spanOf (rowspanAttr cellEl) = Some k \<and> k \<le> 1)"
    unfolding consumeCell_def using that by (rule expandCell_ledger)
  from a b c show ?thesis by blast
qed

lemma spanOf_examples:
  "spanOf (Some (str ''0'')) = Some 0" "spanOf (Some (str ''abc'')) = None"
  "spanOf (Some (str ''-3'')) = Some (- 3)" "spanOf None = Some 1" "spanOf (Some []) = Some 1"
  "spanOf (Some (str ''2'')) = Some 2" "spanOf (Some (str ''1'')) = Some 1"
  by (simp_all add: spanOf_def parseInt10_def Let_def startsWith_def isDigit_def digitsValue_def
      isWhiteSpace_def str_def)

theorem nonpositive_colspan_small_rowspan_witness:
  "spanOf (colspanAttr \<lparr>textContent = str ''lost'', colspanAttr = Some (str ''0''), rowspanAttr = Some (str ''abc''),
        alignAttr = None, styleTextAlign = []\<rparr>) = Some 0 \<and>
   spanOf (rowspanAttr \<lparr>textContent = str ''lost'', colspanAttr = Some (str ''0''), rowspanAttr = Some (str ''abc''),
        alignAttr = None, styleTextAlign = []\<rparr>) = None \<and>
   walkCells id True
     [\<lparr>textContent = str ''lost'', colspanAttr = Some (str ''0''), rowspanAttr = Some (str ''abc''),
        alignAttr = None, styleTextAlign = []\<rparr>] 0
     \<lparr>cellsOut = [], ledger = [], alignmentsOut = [], colIdx = 0\<rparr>
   = \<lparr>cellsOut = [], ledger = [], alignmentsOut = [], colIdx = 0\<rparr>"
proof -
  let ?el = "\<lparr>textContent = str ''lost'', colspanAttr = Some (str ''0''), rowspanAttr = Some (str ''abc''),
        alignAttr = None, styleTextAlign = []\<rparr>"
  let ?w = "\<lparr>cellsOut = [], ledger = [], alignmentsOut = [], colIdx = 0\<rparr>"
  have c: "spanOf (colspanAttr ?el) = Some 0" and r: "spanOf (rowspanAttr ?el) = None"
    by (simp_all add: spanOf_examples)
  have no: "\<not> owed (ledger ?w) (colIdx ?w)" by (simp add: owed_def)
  have fin: "walkCells id True [?el] (0 + 1) ?w = ?w"
    by (rule walkCells_done) (simp_all add: owed_def)
  from c have h: "spanOf (colspanAttr ?el) = None \<or> (\<exists>k. spanOf (colspanAttr ?el) = Some k \<and> k \<le> 0)"
    by simp
  have pre: "0 < length [?el] \<and> [?el] ! 0 = ?el \<and> \<not> owed (ledger ?w) (colIdx ?w)"
    using no by simp
  have "walkCells id True [?el] 0 ?w = walkCells id True [?el] (0 + 1) ?w"
    using nonpositive_colspan_small_rowspan [of ?el id True ?w 0 "[?el]"] h pre
    by blast
  with fin c r show ?thesis by simp
qed

lemma mergedCheck_eq:
  "mergedCheck cs ws = (if \<exists>c \<in> set cs. isMerged c then ws @ [mergedWarning] else ws)"
  by (induction cs) auto

lemma countWarning_not_merged: "countWarning n \<noteq> mergedWarning"
  by (simp add: countWarning_def mergedWarning_def str_def)

lemma htmlTableToModel_None: "htmlTableToModel lc tableEl = None \<longleftrightarrow> trElements tableEl = []"
  by (simp add: htmlTableToModel_def Let_def)

lemma convertTable_warnings:
  assumes "convertTable lc (Some el) (Some n) = Inr (Some r)"
  shows "warnings r = mergedCheck (tdthElements el) (if n > 1 then [countWarning n] else [])"
  using assms by (auto simp: convertTable_def Let_def split: option.splits)

lemma digitsValue_snoc: "digitsValue (ds @ [d]) = 10 * digitsValue ds + (d - 48)"
  by (simp add: digitsValue_def)

lemma showNat_digits: "list_all isDigit (showNat n) \<and> showNat n \<noteq> [] \<and> digitsValue (showNat n) = n"
proof (induction n rule: showNat.induct)
  case (1 n)
  show ?case
  proof (cases "n < 10")
    case True
    then show ?thesis
      by (subst (1 2 3) showNat.simps) (simp add: isDigit_def digitsValue_def)
  next
    case False
    with 1 have ih: "list_all isDigit (showNat (n div 10))" "digitsValue (showNat (n div 10)) = n div 10"
      by simp_all
    have s: "showNat n = showNat (n div 10) @ [48 + n mod 10]"
      using False by (subst showNat.simps) simp
    have m: "n mod 10 \<le> 9" by (simp add: Suc_leI flip: less_Suc_eq_le)
    have d: "isDigit (48 + n mod 10)" using m by (simp add: isDigit_def)
    show ?thesis
      unfolding s using ih d by (simp add: digitsValue_snoc)
  qed
qed

lemma parseInt10_digits:
  assumes "list_all isDigit ds" and "ds \<noteq> []"
  shows "parseInt10 ds = Some (int (digitsValue ds))"
    and "parseInt10 (MINUS # ds) = Some (- int (digitsValue ds))"
proof -
  from assms obtain d rest where ds: "ds = d # rest" and d: "isDigit d" by (cases ds) auto
  from d have nw: "\<not> isWhiteSpace d" and ns: "d \<noteq> MINUS" "d \<noteq> 43"
    by (auto simp: isDigit_def isWhiteSpace_def)
  from assms(1) have tw: "takeWhile isDigit ds = ds"
    by (simp add: takeWhile_eq_all_conv list_all_iff)
  have dw: "dropWhile isWhiteSpace ds = ds" using nw ds by simp
  have st: "\<not> startsWith ds MINUS" "\<not> startsWith ds 43" using ns ds by (simp_all add: startsWith_def)
  show "parseInt10 ds = Some (int (digitsValue ds))"
    unfolding parseInt10_def Let_def dw using st assms(2) by (simp add: tw)
  have dw2: "dropWhile isWhiteSpace (MINUS # ds) = MINUS # ds" by (simp add: isWhiteSpace_def)
  have st2: "startsWith (MINUS # ds) MINUS" by (simp add: startsWith_def)
  show "parseInt10 (MINUS # ds) = Some (- int (digitsValue ds))"
    unfolding parseInt10_def Let_def dw2 using st2 assms(2) by (simp add: tw)
qed

lemma parseInt10_showInt: "parseInt10 (showInt n) = Some n"
proof (cases "n < 0")
  case False
  have "parseInt10 (showNat (nat n)) = Some (int (digitsValue (showNat (nat n))))"
    using showNat_digits [of "nat n"] by (intro parseInt10_digits) simp_all
  with False show ?thesis using showNat_digits [of "nat n"] by (simp add: showInt_def)
next
  case True
  have "parseInt10 (MINUS # showNat (nat (- n))) = Some (- int (digitsValue (showNat (nat (- n)))))"
    using showNat_digits [of "nat (- n)"] by (intro parseInt10_digits) simp_all
  with True show ?thesis using showNat_digits [of "nat (- n)"] by (simp add: showInt_def)
qed

text \<open>
  What lines 195 to 210 make of a table element and a count, had \<open>htmlToMarkdown\<close> been
  given them: first the count warning, exactly when the count is greater than 1, then the
  merged-cells warning, exactly when some cell element has a \<open>colspan\<close> or \<open>rowspan\<close>
  that parses to more than 1, and nothing else. The count warning spells the count: what
  it holds between \<open>Found\<close> and \<open>tables\<close> is read back by \<open>parseInt\<close> as the count. The
  call returns a conversion exactly when the table element has a row.
\<close>

lemma convertTable_warning_list:
  "(convertTable lc (Some el) (Some n) = Inr (Some r) \<longrightarrow>
      warnings r =
        (if 1 < n then [str ''Found '' @ showInt n @ str '' tables '' @ [8212]
                          @ str '' only the first was converted.''] else [])
        @ (if \<exists>c \<in> set (tdthElements el). isMerged c then [mergedWarning] else [])) \<and>
   parseInt10 (showInt n) = Some n \<and>
   ((\<exists>r. convertTable lc (Some el) (Some n) = Inr (Some r)) \<longleftrightarrow> trElements el \<noteq> [])"
proof -
  have a: "warnings r =
        (if 1 < n then [str ''Found '' @ showInt n @ str '' tables '' @ [8212]
                          @ str '' only the first was converted.''] else [])
        @ (if \<exists>c \<in> set (tdthElements el). isMerged c then [mergedWarning] else [])"
    if "convertTable lc (Some el) (Some n) = Inr (Some r)"
  proof -
    from that have w: "warnings r = mergedCheck (tdthElements el)
                        (if n > 1 then [countWarning n] else [])"
      by (rule convertTable_warnings)
    show ?thesis
      unfolding w mergedCheck_eq by (simp add: countWarning_def)
  qed
  have b: "(\<exists>r. convertTable lc (Some el) (Some n) = Inr (Some r)) \<longleftrightarrow> trElements el \<noteq> []"
    using htmlTableToModel_None [of lc el]
    by (cases "htmlTableToModel lc el") (auto simp: convertTable_def Let_def)
  from a b parseInt10_showInt show ?thesis by blast
qed

lemma querySelector_element:
  assumes "querySelector name doc = Some e"
  shows "\<exists>attrs kids. e = ElementNode name attrs kids"
proof -
  from assms have "hasLocalName name e"
    by (auto simp: querySelector_def find_Some_iff)
  then show ?thesis by (cases e) auto
qed

lemma sanitizeWordHtml_None:
  "sanitizeWordHtml parseFromString htmlString = None
     \<longleftrightarrow> querySelector (str ''table'') (parseFromString htmlString) = None"
proof (cases "querySelector (str ''table'') (parseFromString htmlString)")
  case None
  then show ?thesis by (simp add: sanitizeWordHtml_def)
next
  case (Some e)
  then obtain attrs kids where "e = ElementNode (str ''table'') attrs kids"
    using querySelector_element by blast
  with Some show ?thesis by (simp add: sanitizeWordHtml_def Let_def)
qed

lemma alignMatch_examples:
  "alignMatch (str ''width:100pt; TEXT-ALIGN:  Center'') = Some (str ''center'')"
  "alignMatch (str ''text-align:justify;text-align:right'') = Some (str ''right'')"
  "alignMatch (str ''mso-yfti-firstrow:yes'') = None"
  by (simp_all add: alignWord_def lowerAscii_def isWhiteSpace_def str_def)

text \<open>
  The sanitizer on a document as Word writes it: the \<open>o:p\<close> element gives way to its
  text, the \<open>colgroup\<close> goes, the \<open>text-align\<close> of a style becomes the \<open>align\<close>
  attribute, and \<open>colspan\<close>, comments and text stay. The result is the element.
\<close>

lemma sanitizeWordHtml_example:
  assumes "parseFromString htmlString =
     ElementNode (str ''html'') []
        [ElementNode (str ''head'') [] [],
         ElementNode (str ''body'') []
           [ElementNode (str ''table'') [(str ''class'', str ''MsoTableGrid''), (str ''border'', str ''1''),
                                        (str ''cellpadding'', str ''0'')]
              [ElementNode (str ''colgroup'') [] [ElementNode (str ''col'') [(str ''width'', str ''80'')] []],
               ElementNode (str ''tbody'') []
                 [ElementNode (str ''tr'') [(str ''style'', str ''mso-yfti-firstrow:yes'')]
                    [ElementNode (str ''td'') [(str ''style'', str ''width:100pt; TEXT-ALIGN:  Center''),
                                             (str ''colspan'', str ''2'')]
                       [ElementNode (str ''p'') [(str ''class'', str ''MsoNormal'')]
                          [TextNode (str ''Hello''), ElementNode (str ''o:p'') [] [TextNode (str '' '')]]],
                     ElementNode (str ''td'') [(str ''align'', str ''right''), (str ''valign'', str ''top'')]
                       [CommentNode (str ''[if !supportLists]''), TextNode (str ''World'')]]]]]]"
  shows "sanitizeWordHtml parseFromString htmlString
   = Some (ElementNode (str ''table'') [(str ''border'', str ''1'')]
             [ElementNode (str ''tbody'') []
                [ElementNode (str ''tr'') []
                   [ElementNode (str ''td'') [(str ''colspan'', str ''2''), (str ''align'', str ''center'')]
                      [ElementNode (str ''p'') [] [TextNode (str ''Hello''), TextNode (str '' '')]],
                    ElementNode (str ''td'') [(str ''align'', str ''right'')]
                      [CommentNode (str ''[if !supportLists]''), TextNode (str ''World'')]]]])"
  unfolding sanitizeWordHtml_def assms
  by (simp add: querySelector_def Let_def removeAttribute_def cleanAttributes_def
      getAttribute_def setAttribute_def alignWord_def lowerAscii_def isWhiteSpace_def str_def)

lemma twoTables_first:
  "querySelector (str ''table'') twoTablesDocument = Some (oneCellTable (str ''Table 1''))"
  by (simp add: querySelector_def twoTablesDocument_def oneCellTable_def str_def)

lemma twoTables_sanitized:
  "sanitizeWordHtml (\<lambda>h. twoTablesDocument) twoTablesHtml = Some (oneCellTable (str ''Table 1''))"
  unfolding sanitizeWordHtml_def Let_def twoTables_first
  by (simp add: oneCellTable_def removeAttribute_def cleanAttributes_def getAttribute_def str_def)

text \<open>
  Claim C7. \<open>sanitizeWordHtml\<close> returns the table element itself, and \<open>htmlToMarkdown\<close>
  reads \<open>table\<close> and \<open>tableCount\<close> off it, which are both \<open>undefined\<close>; then
  \<open>htmlTableToModel(undefined)\<close> throws. So whatever the input, \<open>htmlToMarkdown\<close> throws
  a \<open>TypeError\<close> when the document holds a table element and returns \<open>null\<close> when it
  holds none: it returns no conversion and no warning on any input, where its own
  documentation and tests have a conversion with the count warning for two tables.
\<close>

theorem htmlToMarkdown_throws:
  "htmlToMarkdown parseFromString lc htmlString =
     (case querySelector (str ''table'') (parseFromString htmlString) of
        None \<Rightarrow> Inr None
      | Some table \<Rightarrow> Inl TypeError)"
proof (cases "sanitizeWordHtml parseFromString htmlString")
  case None
  then have "querySelector (str ''table'') (parseFromString htmlString) = None"
    by (simp add: sanitizeWordHtml_None)
  with None show ?thesis by (simp add: htmlToMarkdown_def)
next
  case (Some result)
  then have "querySelector (str ''table'') (parseFromString htmlString) \<noteq> None"
    using sanitizeWordHtml_None [of parseFromString htmlString] by simp
  with Some show ?thesis
    by (auto simp: htmlToMarkdown_def convertTable_def tableProperty_def)
qed

theorem htmlToMarkdown_throws_witness:
  "sanitizeWordHtml (\<lambda>h. twoTablesDocument) twoTablesHtml = Some (oneCellTable (str ''Table 1'')) \<and>
   htmlToMarkdown (\<lambda>h. twoTablesDocument) id twoTablesHtml = Inl TypeError"
  using htmlToMarkdown_throws [of "\<lambda>h. twoTablesDocument" id twoTablesHtml]
  by (simp add: twoTables_first twoTables_sanitized)


lemma expandCell_step:
  "numLess c colspan' \<Longrightarrow>
   expandCell lc capture content' colspan' rowspan' align c w =
     (let cellContent = (if c = 0 then content' else []);
          w1 = w\<lparr>cellsOut := cellsOut w @ [createCell1 cellContent]\<rparr>;
          w2 = (case rowspan' of
                  None \<Rightarrow> w1
                | Some r \<Rightarrow>
                    if r > 1 then w1\<lparr>ledger := assignAt (ledger w1) (colIdx w1) (r - 1)\<rparr>
                    else w1);
          w3 = (if capture
                then (case align of
                        Some a \<Rightarrow> w2\<lparr>alignmentsOut := alignmentsOut w2 @ [lc a]\<rparr>
                      | None \<Rightarrow> w2\<lparr>alignmentsOut := alignmentsOut w2 @ [str ''left'']\<rparr>)
                else w2)
      in expandCell lc capture content' colspan' rowspan' align (c + 1) (w3\<lparr>colIdx := colIdx w3 + 1\<rparr>))"
  by (subst expandCell.simps) simp

lemma drainFillers_step:
  "owed (ledger w) (colIdx w) \<Longrightarrow> drainFillers w = drainFillers (emitFiller w)"
  by (subst drainFillers.simps) simp

lemma drainFillers_done:
  "\<not> owed (ledger w) (colIdx w) \<Longrightarrow> drainFillers w = w"
  by (subst drainFillers.simps) simp

lemmas walk_eval =
  walkCells_consume walkCells_filler walkCells_done drainFillers_step drainFillers_done
  expandCell_step expandCell_none
  consumeCell_def cellText_def cellAlign_def emitFiller_def owed_def decrementAt_def assignAt_def
  numLess_def numGreater_def spanOf_def parseInt10_def startsWith_def isDigit_def digitsValue_def
  trim_def isWhiteSpace_def str_def createRow_def createCell1_def createCell_def Let_def

lemma undrained_row1:
  "processRow id True 0
     \<lparr>inThead = False, cellElements =
        [\<lparr>textContent = str ''A'', colspanAttr = None, rowspanAttr = None, alignAttr = None, styleTextAlign = []\<rparr>,
         \<lparr>textContent = str ''B'', colspanAttr = None, rowspanAttr = None, alignAttr = None, styleTextAlign = []\<rparr>,
         \<lparr>textContent = str ''C'', colspanAttr = None, rowspanAttr = Some (str ''2''), alignAttr = None, styleTextAlign = []\<rparr>]\<rparr>
     \<lparr>rowsOut = [],
       alignmentsAcc = [], alignmentsSet = False, rowspanTracker = []\<rparr>
   = \<lparr>rowsOut = [\<lparr>isHeader = True, cells = [createCell (str ''A'') 1 1, createCell (str ''B'') 1 1, createCell (str ''C'') 1 1]\<rparr>],
       alignmentsAcc = [str ''left'', str ''left'', str ''left''], alignmentsSet = True, rowspanTracker = [None, None, Some 1]\<rparr>"
proof -
  have w: "walkCells id True
      [\<lparr>textContent = str ''A'', colspanAttr = None, rowspanAttr = None, alignAttr = None, styleTextAlign = []\<rparr>,
         \<lparr>textContent = str ''B'', colspanAttr = None, rowspanAttr = None, alignAttr = None, styleTextAlign = []\<rparr>,
         \<lparr>textContent = str ''C'', colspanAttr = None, rowspanAttr = Some (str ''2''), alignAttr = None, styleTextAlign = []\<rparr>] 0
      \<lparr>cellsOut = [], ledger = [], alignmentsOut = [], colIdx = 0\<rparr>
    = \<lparr>cellsOut = [createCell (str ''A'') 1 1, createCell (str ''B'') 1 1, createCell (str ''C'') 1 1], ledger = [None, None, Some 1], alignmentsOut = [str ''left'', str ''left'', str ''left''], colIdx = 3\<rparr>"
    by (simp add: walk_eval)
  have d: "drainFillers \<lparr>cellsOut = [createCell (str ''A'') 1 1, createCell (str ''B'') 1 1, createCell (str ''C'') 1 1], ledger = [None, None, Some 1], alignmentsOut = [str ''left'', str ''left'', str ''left''], colIdx = 3\<rparr>
    = \<lparr>cellsOut = [createCell (str ''A'') 1 1, createCell (str ''B'') 1 1, createCell (str ''C'') 1 1], ledger = [None, None, Some 1], alignmentsOut = [str ''left'', str ''left'', str ''left''], colIdx = 3\<rparr>"
    by (simp add: walk_eval)
  show ?thesis
    unfolding processRow_def Let_def
    by (simp add: w d createRow_def)
qed

lemma undrained_row2:
  "processRow id True 1
     \<lparr>inThead = False, cellElements =
        [\<lparr>textContent = str ''X'', colspanAttr = None, rowspanAttr = None, alignAttr = None, styleTextAlign = []\<rparr>]\<rparr>
     \<lparr>rowsOut = [\<lparr>isHeader = True, cells = [createCell (str ''A'') 1 1, createCell (str ''B'') 1 1, createCell (str ''C'') 1 1]\<rparr>],
       alignmentsAcc = [str ''left'', str ''left'', str ''left''], alignmentsSet = True, rowspanTracker = [None, None, Some 1]\<rparr>
   = \<lparr>rowsOut = [\<lparr>isHeader = True, cells = [createCell (str ''A'') 1 1, createCell (str ''B'') 1 1, createCell (str ''C'') 1 1]\<rparr>,
                  \<lparr>isHeader = False, cells = [createCell (str ''X'') 1 1]\<rparr>],
       alignmentsAcc = [str ''left'', str ''left'', str ''left''], alignmentsSet = True, rowspanTracker = [None, None, Some 1]\<rparr>"
proof -
  have w: "walkCells id False
      [\<lparr>textContent = str ''X'', colspanAttr = None, rowspanAttr = None, alignAttr = None, styleTextAlign = []\<rparr>] 0
      \<lparr>cellsOut = [], ledger = [None, None, Some 1], alignmentsOut = [str ''left'', str ''left'', str ''left''], colIdx = 0\<rparr>
    = \<lparr>cellsOut = [createCell (str ''X'') 1 1], ledger = [None, None, Some 1], alignmentsOut = [str ''left'', str ''left'', str ''left''], colIdx = Suc 0\<rparr>"
    by (simp add: walk_eval)
  have d: "drainFillers \<lparr>cellsOut = [createCell (str ''X'') 1 1], ledger = [None, None, Some 1], alignmentsOut = [str ''left'', str ''left'', str ''left''], colIdx = Suc 0\<rparr>
    = \<lparr>cellsOut = [createCell (str ''X'') 1 1], ledger = [None, None, Some 1], alignmentsOut = [str ''left'', str ''left'', str ''left''], colIdx = Suc 0\<rparr>"
    by (simp add: walk_eval)
  show ?thesis
    unfolding processRow_def Let_def
    by (simp add: w d createRow_def)
qed

lemma undrained_row3:
  "processRow id True 2
     \<lparr>inThead = False, cellElements =
        [\<lparr>textContent = str ''P'', colspanAttr = None, rowspanAttr = None, alignAttr = None, styleTextAlign = []\<rparr>,
         \<lparr>textContent = str ''Q'', colspanAttr = None, rowspanAttr = None, alignAttr = None, styleTextAlign = []\<rparr>,
         \<lparr>textContent = str ''R'', colspanAttr = None, rowspanAttr = None, alignAttr = None, styleTextAlign = []\<rparr>]\<rparr>
     \<lparr>rowsOut = [\<lparr>isHeader = True, cells = [createCell (str ''A'') 1 1, createCell (str ''B'') 1 1, createCell (str ''C'') 1 1]\<rparr>,
                  \<lparr>isHeader = False, cells = [createCell (str ''X'') 1 1]\<rparr>],
       alignmentsAcc = [str ''left'', str ''left'', str ''left''], alignmentsSet = True, rowspanTracker = [None, None, Some 1]\<rparr>
   = \<lparr>rowsOut = [\<lparr>isHeader = True, cells = [createCell (str ''A'') 1 1, createCell (str ''B'') 1 1, createCell (str ''C'') 1 1]\<rparr>,
                  \<lparr>isHeader = False, cells = [createCell (str ''X'') 1 1]\<rparr>,
                  \<lparr>isHeader = False, cells = [createCell (str ''P'') 1 1, createCell (str ''Q'') 1 1, createCell [] 1 1, createCell (str ''R'') 1 1]\<rparr>],
       alignmentsAcc = [str ''left'', str ''left'', str ''left''], alignmentsSet = True, rowspanTracker = [None, None, Some 0]\<rparr>"
proof -
  have w: "walkCells id False
      [\<lparr>textContent = str ''P'', colspanAttr = None, rowspanAttr = None, alignAttr = None, styleTextAlign = []\<rparr>,
         \<lparr>textContent = str ''Q'', colspanAttr = None, rowspanAttr = None, alignAttr = None, styleTextAlign = []\<rparr>,
         \<lparr>textContent = str ''R'', colspanAttr = None, rowspanAttr = None, alignAttr = None, styleTextAlign = []\<rparr>] 0
      \<lparr>cellsOut = [], ledger = [None, None, Some 1], alignmentsOut = [str ''left'', str ''left'', str ''left''], colIdx = 0\<rparr>
    = \<lparr>cellsOut = [createCell (str ''P'') 1 1, createCell (str ''Q'') 1 1, createCell [] 1 1, createCell (str ''R'') 1 1], ledger = [None, None, Some 0], alignmentsOut = [str ''left'', str ''left'', str ''left''], colIdx = 4\<rparr>"
    by (simp add: walk_eval)
  have d: "drainFillers \<lparr>cellsOut = [createCell (str ''P'') 1 1, createCell (str ''Q'') 1 1, createCell [] 1 1, createCell (str ''R'') 1 1], ledger = [None, None, Some 0], alignmentsOut = [str ''left'', str ''left'', str ''left''], colIdx = 4\<rparr>
    = \<lparr>cellsOut = [createCell (str ''P'') 1 1, createCell (str ''Q'') 1 1, createCell [] 1 1, createCell (str ''R'') 1 1], ledger = [None, None, Some 0], alignmentsOut = [str ''left'', str ''left'', str ''left''], colIdx = 4\<rparr>"
    by (simp add: walk_eval)
  show ?thesis
    unfolding processRow_def Let_def
    by (simp add: w d createRow_def)
qed

lemma undrained_normalize:
  "normalizeTable (createTable
      [\<lparr>isHeader = True, cells = [createCell (str ''A'') 1 1, createCell (str ''B'') 1 1, createCell (str ''C'') 1 1]\<rparr>,
       \<lparr>isHeader = False, cells = [createCell (str ''X'') 1 1]\<rparr>,
       \<lparr>isHeader = False, cells = [createCell (str ''P'') 1 1, createCell (str ''Q'') 1 1, createCell [] 1 1, createCell (str ''R'') 1 1]\<rparr>]
      [str ''left'', str ''left'', str ''left''])
   = \<lparr>alignments = [str ''left'', str ''left'', str ''left'', str ''left''],
        rows =
          [\<lparr>isHeader = True, cells = [createCell (str ''A'') 1 1, createCell (str ''B'') 1 1, createCell (str ''C'') 1 1, createCell [] 1 1]\<rparr>,
           \<lparr>isHeader = False, cells = [createCell (str ''X'') 1 1, createCell [] 1 1, createCell [] 1 1, createCell [] 1 1]\<rparr>,
           \<lparr>isHeader = False, cells = [createCell (str ''P'') 1 1, createCell (str ''Q'') 1 1, createCell [] 1 1, createCell (str ''R'') 1 1]\<rparr>]\<rparr>"
  by (simp add: createTable_def createCell_def
      normalizeTable_def getColumnCount_def colspanSum_def normalizeRow_def padCells.simps
      padAlignments.simps slice0_def createCell0_def Let_def)

text \<open>
  Claim C3 on a table of three rows: A, B and C with \<open>rowspan="2"\<close> on C; then X alone;
  then P, Q and R. After X the walk over the second row stands at column 1, where nothing
  is owed, and ends; the filler owed at column 2 is not emitted for that row and stays in
  the ledger. It is emitted in the third row, which becomes P, Q, empty, R, and the table
  gets a fourth column.
\<close>

theorem undrained_filler_example:
  "htmlTableToModel id
     \<lparr>trElements =
      [\<lparr>inThead = False, cellElements =
        [\<lparr>textContent = str ''A'', colspanAttr = None, rowspanAttr = None, alignAttr = None, styleTextAlign = []\<rparr>,
         \<lparr>textContent = str ''B'', colspanAttr = None, rowspanAttr = None, alignAttr = None, styleTextAlign = []\<rparr>,
         \<lparr>textContent = str ''C'', colspanAttr = None, rowspanAttr = Some (str ''2''), alignAttr = None, styleTextAlign = []\<rparr>]\<rparr>,
       \<lparr>inThead = False, cellElements =
        [\<lparr>textContent = str ''X'', colspanAttr = None, rowspanAttr = None, alignAttr = None, styleTextAlign = []\<rparr>]\<rparr>,
       \<lparr>inThead = False, cellElements =
        [\<lparr>textContent = str ''P'', colspanAttr = None, rowspanAttr = None, alignAttr = None, styleTextAlign = []\<rparr>,
         \<lparr>textContent = str ''Q'', colspanAttr = None, rowspanAttr = None, alignAttr = None, styleTextAlign = []\<rparr>,
         \<lparr>textContent = str ''R'', colspanAttr = None, rowspanAttr = None, alignAttr = None, styleTextAlign = []\<rparr>]\<rparr>],
     tdthElements = []\<rparr>
   = Some \<lparr>alignments = [str ''left'', str ''left'', str ''left'', str ''left''],
        rows =
          [\<lparr>isHeader = True, cells = [createCell (str ''A'') 1 1, createCell (str ''B'') 1 1, createCell (str ''C'') 1 1, createCell [] 1 1]\<rparr>,
           \<lparr>isHeader = False, cells = [createCell (str ''X'') 1 1, createCell [] 1 1, createCell [] 1 1, createCell [] 1 1]\<rparr>,
           \<lparr>isHeader = False, cells = [createCell (str ''P'') 1 1, createCell (str ''Q'') 1 1, createCell [] 1 1, createCell (str ''R'') 1 1]\<rparr>]\<rparr> \<and>
   processRow id True 1
     \<lparr>inThead = False, cellElements =
        [\<lparr>textContent = str ''X'', colspanAttr = None, rowspanAttr = None, alignAttr = None, styleTextAlign = []\<rparr>]\<rparr>
     \<lparr>rowsOut = [\<lparr>isHeader = True, cells = [createCell (str ''A'') 1 1, createCell (str ''B'') 1 1, createCell (str ''C'') 1 1]\<rparr>],
       alignmentsAcc = [str ''left'', str ''left'', str ''left''], alignmentsSet = True, rowspanTracker = [None, None, Some 1]\<rparr>
   = \<lparr>rowsOut = [\<lparr>isHeader = True, cells = [createCell (str ''A'') 1 1, createCell (str ''B'') 1 1, createCell (str ''C'') 1 1]\<rparr>,
                  \<lparr>isHeader = False, cells = [createCell (str ''X'') 1 1]\<rparr>],
       alignmentsAcc = [str ''left'', str ''left'', str ''left''], alignmentsSet = True, rowspanTracker = [None, None, Some 1]\<rparr>"
proof -
  have "processRows id True 0
      [\<lparr>inThead = False, cellElements =
        [\<lparr>textContent = str ''A'', colspanAttr = None, rowspanAttr = None, alignAttr = None, styleTextAlign = []\<rparr>,
         \<lparr>textContent = str ''B'', colspanAttr = None, rowspanAttr = None, alignAttr = None, styleTextAlign = []\<rparr>,
         \<lparr>textContent = str ''C'', colspanAttr = None, rowspanAttr = Some (str ''2''), alignAttr = None, styleTextAlign = []\<rparr>]\<rparr>,
       \<lparr>inThead = False, cellElements =
        [\<lparr>textContent = str ''X'', colspanAttr = None, rowspanAttr = None, alignAttr = None, styleTextAlign = []\<rparr>]\<rparr>,
       \<lparr>inThead = False, cellElements =
        [\<lparr>textContent = str ''P'', colspanAttr = None, rowspanAttr = None, alignAttr = None, styleTextAlign = []\<rparr>,
         \<lparr>textContent = str ''Q'', colspanAttr = None, rowspanAttr = None, alignAttr = None, styleTextAlign = []\<rparr>,
         \<lparr>textContent = str ''R'', colspanAttr = None, rowspanAttr = None, alignAttr = None, styleTextAlign = []\<rparr>]\<rparr>]
      \<lparr>rowsOut = [],
       alignmentsAcc = [], alignmentsSet = False, rowspanTracker = []\<rparr>
    = \<lparr>rowsOut = [\<lparr>isHeader = True, cells = [createCell (str ''A'') 1 1, createCell (str ''B'') 1 1, createCell (str ''C'') 1 1]\<rparr>,
                  \<lparr>isHeader = False, cells = [createCell (str ''X'') 1 1]\<rparr>,
                  \<lparr>isHeader = False, cells = [createCell (str ''P'') 1 1, createCell (str ''Q'') 1 1, createCell [] 1 1, createCell (str ''R'') 1 1]\<rparr>],
       alignmentsAcc = [str ''left'', str ''left'', str ''left''], alignmentsSet = True, rowspanTracker = [None, None, Some 0]\<rparr>"
    by (simp add: undrained_row1 undrained_row2 undrained_row3 del: One_nat_def)
  then have "htmlTableToModel id
     \<lparr>trElements =
      [\<lparr>inThead = False, cellElements =
        [\<lparr>textContent = str ''A'', colspanAttr = None, rowspanAttr = None, alignAttr = None, styleTextAlign = []\<rparr>,
         \<lparr>textContent = str ''B'', colspanAttr = None, rowspanAttr = None, alignAttr = None, styleTextAlign = []\<rparr>,
         \<lparr>textContent = str ''C'', colspanAttr = None, rowspanAttr = Some (str ''2''), alignAttr = None, styleTextAlign = []\<rparr>]\<rparr>,
       \<lparr>inThead = False, cellElements =
        [\<lparr>textContent = str ''X'', colspanAttr = None, rowspanAttr = None, alignAttr = None, styleTextAlign = []\<rparr>]\<rparr>,
       \<lparr>inThead = False, cellElements =
        [\<lparr>textContent = str ''P'', colspanAttr = None, rowspanAttr = None, alignAttr = None, styleTextAlign = []\<rparr>,
         \<lparr>textContent = str ''Q'', colspanAttr = None, rowspanAttr = None, alignAttr = None, styleTextAlign = []\<rparr>,
         \<lparr>textContent = str ''R'', colspanAttr = None, rowspanAttr = None, alignAttr = None, styleTextAlign = []\<rparr>]\<rparr>],
     tdthElements = []\<rparr>
   = Some \<lparr>alignments = [str ''left'', str ''left'', str ''left'', str ''left''],
        rows =
          [\<lparr>isHeader = True, cells = [createCell (str ''A'') 1 1, createCell (str ''B'') 1 1, createCell (str ''C'') 1 1, createCell [] 1 1]\<rparr>,
           \<lparr>isHeader = False, cells = [createCell (str ''X'') 1 1, createCell [] 1 1, createCell [] 1 1, createCell [] 1 1]\<rparr>,
           \<lparr>isHeader = False, cells = [createCell (str ''P'') 1 1, createCell (str ''Q'') 1 1, createCell [] 1 1, createCell (str ''R'') 1 1]\<rparr>]\<rparr>"
    by (simp add: htmlTableToModel_def undrained_normalize)
  then show ?thesis using undrained_row2 by (rule conjI)
qed

lemma walkCells_not_owed:
  "\<not> owed (ledger (walkCells lc capture els cellElIdx w)) (colIdx (walkCells lc capture els cellElIdx w))"
proof (induction lc capture els cellElIdx w rule: walkCells.induct)
  case (1 lc capture els cellElIdx w)
  show ?case
  proof (cases "owed (ledger w) (colIdx w)")
    case True
    with 1 show ?thesis by (simp add: walkCells_filler)
  next
    case no: False
    show ?thesis
    proof (cases "cellElIdx < length els")
      case True
      with no 1 show ?thesis by (simp add: walkCells_consume)
    next
      case False
      with no show ?thesis by (simp add: walkCells_done)
    qed
  qed
qed

lemma drainFillers_after_walk:
  "drainFillers (walkCells lc capture els cellElIdx w) = walkCells lc capture els cellElIdx w"
  by (rule drainFillers_done) (rule walkCells_not_owed)

section \<open>The round trip from Markdown through HTML\<close>

lemma replaceAll_concat: "replaceAll c rep (concat xss) = concat (map (replaceAll c rep) xss)"
  by (induction xss) (simp_all add: replaceAll_def)

lemma escapeHtml_units: "escapeHtml s = concat (map escapeUnit s)"
proof -
  have 1: "replaceAll AMP (str ''&amp;'') s = concat (map (\<lambda>x. if x = AMP then str ''&amp;'' else [x]) s)"
    by (simp add: replaceAll_def)
  have 2: "replaceAll LT (str ''&lt;'') (concat (map (\<lambda>x. if x = AMP then str ''&amp;'' else [x]) s))
      = concat (map (\<lambda>x. if x = AMP then str ''&amp;'' else if x = LT then str ''&lt;'' else [x]) s)"
    unfolding replaceAll_concat map_map comp_def
    by (rule arg_cong [where f = concat], rule map_cong) (auto simp: replaceAll_def str_def)
  have 3: "replaceAll GT (str ''&gt;'')
        (concat (map (\<lambda>x. if x = AMP then str ''&amp;'' else if x = LT then str ''&lt;'' else [x]) s))
      = concat (map (\<lambda>x. if x = AMP then str ''&amp;'' else if x = LT then str ''&lt;''
                          else if x = GT then str ''&gt;'' else [x]) s)"
    unfolding replaceAll_concat map_map comp_def
    by (rule arg_cong [where f = concat], rule map_cong) (auto simp: replaceAll_def str_def)
  have 4: "replaceAll DQUOTE (str ''&quot;'')
        (concat (map (\<lambda>x. if x = AMP then str ''&amp;'' else if x = LT then str ''&lt;''
                          else if x = GT then str ''&gt;'' else [x]) s))
      = concat (map escapeUnit s)"
    unfolding replaceAll_concat map_map comp_def
    by (rule arg_cong [where f = concat], rule map_cong) (auto simp: replaceAll_def str_def escapeUnit_def)
  show ?thesis
    unfolding escapeHtml_def 1 2 3 4 ..
qed

lemma escapeHtml_Nil: "escapeHtml [] = []"
  by (simp add: escapeHtml_units)

lemma escapeHtml_Cons: "escapeHtml (x # xs) = escapeUnit x @ escapeHtml xs"
  by (simp add: escapeHtml_units)

lemma decodeEntities_unit: "decodeEntities (escapeUnit x @ rest) = x # decodeEntities rest"
  by (simp add: escapeUnit_def str_def)

lemma decode_escape: "decodeEntities (escapeHtml s) = s"
  by (induction s) (simp_all add: escapeHtml_Nil escapeHtml_Cons decodeEntities_unit)

lemma escapeUnit_no_LT: "LT \<notin> set (escapeUnit x)"
  by (simp add: escapeUnit_def str_def)

lemma run_Nil: "readMarkup r [] = r"
  by (simp add: readMarkup_def)

lemma run_Cons: "readMarkup r (c # s) = readMarkup (readStep r c) s"
  by (simp add: readMarkup_def)

lemma run_append: "readMarkup r (a @ b) = readMarkup (readMarkup r a) b"
  by (simp add: readMarkup_def)

lemma run_plain:
  "\<not> lastCR r \<Longrightarrow> CR \<notin> set s \<Longrightarrow> (if inTag r then GT \<notin> set s else LT \<notin> set s) \<Longrightarrow>
     readMarkup r s = r\<lparr>pending := pending r @ s\<rparr>"
proof (induction s arbitrary: r)
  case Nil
  show ?case by (simp add: run_Nil)
next
  case (Cons c s)
  from Cons.prems have step: "readStep r c = r\<lparr>pending := pending r @ [c]\<rparr>"
    by (auto simp: readStep_def feed_def split: if_splits)
  have "readMarkup (r\<lparr>pending := pending r @ [c]\<rparr>) s
      = (r\<lparr>pending := pending r @ [c]\<rparr>)\<lparr>pending := pending (r\<lparr>pending := pending r @ [c]\<rparr>) @ s\<rparr>"
    by (rule Cons.IH) (use Cons.prems in \<open>auto split: if_splits\<close>)
  then show ?case by (simp add: run_Cons step)
qed

lemma run_escaped:
  "\<not> inTag r \<Longrightarrow>
     readMarkup r (escapeHtml c)
       = r\<lparr>pending := pending r @ escapeHtml (newlinesFrom (lastCR r) c), lastCR := crAfter (lastCR r) c\<rparr>"
proof (induction c arbitrary: r)
  case Nil
  show ?case by (simp add: escapeHtml_Nil run_Nil)
next
  case (Cons x xs)
  show ?case
  proof (cases "x = CR")
    case True
    have s: "readStep r CR = r\<lparr>pending := pending r @ [NL], lastCR := True\<rparr>"
      using Cons.prems by (simp add: readStep_def feed_def)
    have "readMarkup (r\<lparr>pending := pending r @ [NL], lastCR := True\<rparr>) (escapeHtml xs)
        = (r\<lparr>pending := pending r @ [NL], lastCR := True\<rparr>)
            \<lparr>pending := pending (r\<lparr>pending := pending r @ [NL], lastCR := True\<rparr>)
                 @ escapeHtml (newlinesFrom (lastCR (r\<lparr>pending := pending r @ [NL], lastCR := True\<rparr>)) xs),
             lastCR := crAfter (lastCR (r\<lparr>pending := pending r @ [NL], lastCR := True\<rparr>)) xs\<rparr>"
      by (rule Cons.IH) (use Cons.prems in simp)
    then show ?thesis
      using True by (simp add: escapeHtml_Cons run_Cons s escapeUnit_def)
  next
    case notCR: False
    show ?thesis
    proof (cases "x = NL \<and> lastCR r")
      case True
      have s: "readStep r NL = r\<lparr>lastCR := False\<rparr>"
        using True by (simp add: readStep_def)
      have "readMarkup (r\<lparr>lastCR := False\<rparr>) (escapeHtml xs)
        = (r\<lparr>lastCR := False\<rparr>)
            \<lparr>pending := pending (r\<lparr>lastCR := False\<rparr>)
                 @ escapeHtml (newlinesFrom (lastCR (r\<lparr>lastCR := False\<rparr>)) xs),
             lastCR := crAfter (lastCR (r\<lparr>lastCR := False\<rparr>)) xs\<rparr>"
        by (rule Cons.IH) (use Cons.prems in simp)
      then show ?thesis
        using True by (simp add: escapeHtml_Cons run_Cons s escapeUnit_def)
    next
      case False
      let ?r1 = "r\<lparr>pending := pending r @ escapeUnit x, lastCR := False\<rparr>"
      have e: "readMarkup r (escapeUnit x) = ?r1"
        using notCR False Cons.prems
        by (auto simp: escapeUnit_def str_def run_Cons run_Nil readStep_def feed_def)
      have "readMarkup ?r1 (escapeHtml xs)
        = ?r1\<lparr>pending := pending ?r1 @ escapeHtml (newlinesFrom (lastCR ?r1) xs),
               lastCR := crAfter (lastCR ?r1) xs\<rparr>"
        by (rule Cons.IH) (use Cons.prems in simp)
      then show ?thesis
        using notCR False by (auto simp: escapeHtml_Cons run_append e)
    qed
  qed
qed

lemma readStep_LT:
  "\<not> inTag r \<Longrightarrow> readStep r LT = (flushText r)\<lparr>inTag := True, pending := [], lastCR := False\<rparr>"
  by (simp add: readStep_def feed_def)

lemma readStep_GT:
  "inTag r \<Longrightarrow> readStep r GT = (applyTag (pending r) r)\<lparr>inTag := False, pending := [], lastCR := False\<rparr>"
  by (simp add: readStep_def feed_def)

lemma applyTag_fields:
  "inTag (applyTag g r) = inTag r" "lastCR (applyTag g r) = lastCR r" "pending (applyTag g r) = pending r"
  by (simp_all add: applyTag_def Let_def split: option.splits)

text \<open>An element tag after some text, read between two elements.\<close>

lemma read_tag:
  assumes t: "LT \<notin> set t" "CR \<notin> set t" and g: "GT \<notin> set g" "CR \<notin> set g"
  shows "readMarkup (between p sw th rs rth cs src) (t @ [LT] @ g @ [GT])
    = (applyTag g \<lparr>inTag = True, lastCR = False, pending = g, sawTable = sw, theadOpen = th,
          rowsRead = rs, rowInThead = rth, rowCells = cs, cellTagSource = src, cellTextAcc = None\<rparr>)
        \<lparr>inTag := False, pending := [], lastCR := False\<rparr>"
proof -
  have 1: "readMarkup (between p sw th rs rth cs src) t = between (p @ t) sw th rs rth cs src"
    using t by (subst run_plain) simp_all
  have 2: "readStep (between (p @ t) sw th rs rth cs src) LT
      = \<lparr>inTag = True, lastCR = False, pending = [], sawTable = sw, theadOpen = th,
          rowsRead = rs, rowInThead = rth, rowCells = cs, cellTagSource = src, cellTextAcc = None\<rparr>"
    by (simp add: readStep_LT flushText_def)
  have 3: "readMarkup \<lparr>inTag = True, lastCR = False, pending = [], sawTable = sw, theadOpen = th,
          rowsRead = rs, rowInThead = rth, rowCells = cs, cellTagSource = src, cellTextAcc = None\<rparr> g
      = \<lparr>inTag = True, lastCR = False, pending = g, sawTable = sw, theadOpen = th,
          rowsRead = rs, rowInThead = rth, rowCells = cs, cellTagSource = src, cellTextAcc = None\<rparr>"
    using g by (subst run_plain) simp_all
  show ?thesis
    by (simp add: run_append run_Cons run_Nil 1 2 3 readStep_GT)
qed

lemma read_structure_tags:
  assumes t: "LT \<notin> set t" "CR \<notin> set t"
  shows "readMarkup (between p sw th rs rth cs src) (t @ [LT] @ str ''tr'' @ [GT])
           = between [] sw th rs th [] src"
    and "readMarkup (between p sw th rs rth cs src) (t @ [LT] @ str ''/tr'' @ [GT])
           = between [] sw th (rs @ [\<lparr>inThead = rth, cellElements = cs\<rparr>]) rth cs src"
    and "readMarkup (between p sw th rs rth cs src) (t @ [LT] @ str ''thead'' @ [GT])
           = between [] sw True rs rth cs src"
    and "readMarkup (between p sw th rs rth cs src) (t @ [LT] @ str ''/thead'' @ [GT])
           = between [] sw False rs rth cs src"
    and "readMarkup (between p sw th rs rth cs src) (t @ [LT] @ str ''tbody'' @ [GT])
           = between [] sw th rs rth cs src"
    and "readMarkup (between p sw th rs rth cs src) (t @ [LT] @ str ''/tbody'' @ [GT])
           = between [] sw th rs rth cs src"
    and "readMarkup (between p sw th rs rth cs src) (t @ [LT] @ str ''/table'' @ [GT])
           = between [] sw th rs rth cs src"
proof -
  note rt = read_tag [OF t, of _ p sw th rs rth cs src]
  show "readMarkup (between p sw th rs rth cs src) (t @ [LT] @ str ''tr'' @ [GT])
           = between [] sw th rs th [] src"
    by (subst rt) (simp_all add: applyTag_def str_def)
  show "readMarkup (between p sw th rs rth cs src) (t @ [LT] @ str ''/tr'' @ [GT])
           = between [] sw th (rs @ [\<lparr>inThead = rth, cellElements = cs\<rparr>]) rth cs src"
    by (subst rt) (simp_all add: applyTag_def str_def)
  show "readMarkup (between p sw th rs rth cs src) (t @ [LT] @ str ''thead'' @ [GT])
           = between [] sw True rs rth cs src"
    by (subst rt) (simp_all add: applyTag_def str_def)
  show "readMarkup (between p sw th rs rth cs src) (t @ [LT] @ str ''/thead'' @ [GT])
           = between [] sw False rs rth cs src"
    by (subst rt) (simp_all add: applyTag_def str_def)
  show "readMarkup (between p sw th rs rth cs src) (t @ [LT] @ str ''tbody'' @ [GT])
           = between [] sw th rs rth cs src"
    by (subst rt) (simp_all add: applyTag_def str_def)
  show "readMarkup (between p sw th rs rth cs src) (t @ [LT] @ str ''/tbody'' @ [GT])
           = between [] sw th rs rth cs src"
    by (subst rt) (simp_all add: applyTag_def str_def)
  show "readMarkup (between p sw th rs rth cs src) (t @ [LT] @ str ''/table'' @ [GT])
           = between [] sw th rs rth cs src"
    by (subst rt) (simp_all add: applyTag_def str_def)
qed

lemma read_cell:
  assumes n: "name = str ''th'' \<or> name = str ''td''" and a: "GT \<notin> set attrs" "CR \<notin> set attrs"
  shows "readMarkup (between p sw th rs rth cs src)
           (str ''      '' @ [LT] @ (name @ [SPACE] @ attrs) @ [GT] @ escapeHtml c @ [LT] @ (47 # name) @ [GT] @ [NL])
    = between [NL] sw th rs rth (cs @ [cellElementOf (name @ [SPACE] @ attrs) c]) (name @ [SPACE] @ attrs)"
proof -
  let ?g = "name @ [SPACE] @ attrs"
  let ?S1 = "\<lparr>inTag = False, lastCR = False, pending = [], sawTable = sw, theadOpen = th, rowsRead = rs,
      rowInThead = rth, rowCells = cs, cellTagSource = ?g, cellTextAcc = Some []\<rparr>"
  let ?S3 = "\<lparr>inTag = True, lastCR = False, pending = [], sawTable = sw, theadOpen = th, rowsRead = rs,
      rowInThead = rth, rowCells = cs, cellTagSource = ?g,
      cellTextAcc = Some (filter (\<lambda>x. x \<noteq> NUL) (newlinesFrom False c))\<rparr>"
  have nm: "takeWhile (\<lambda>c. c \<noteq> SPACE) ?g = name"
    using n by (auto simp: str_def)
  have g: "GT \<notin> set ?g" "CR \<notin> set ?g"
    using n a by (auto simp: str_def)
  have 1: "readMarkup (between p sw th rs rth cs src) (str ''      '' @ [LT] @ ?g @ [GT]) = ?S1"
    apply (subst read_tag)
    using g apply (simp_all add: str_def) [4]
    using n apply (auto simp: applyTag_def nm Let_def str_def)
    done
  have 2: "readMarkup ?S1 (escapeHtml c)
      = ?S1\<lparr>pending := escapeHtml (newlinesFrom False c), lastCR := crAfter False c\<rparr>"
    by (subst run_escaped) simp_all
  have 3: "readStep (?S1\<lparr>pending := escapeHtml (newlinesFrom False c), lastCR := crAfter False c\<rparr>) LT = ?S3"
    by (simp add: readStep_LT flushText_def decode_escape)
  have 4: "readMarkup ?S3 (47 # name) = ?S3\<lparr>pending := 47 # name\<rparr>"
    using n by (subst run_plain) (auto simp: str_def)
  have cl: "takeWhile (\<lambda>c. c \<noteq> SPACE) (47 # name) = 47 # name"
    using n by (auto simp: str_def)
  have 5: "readStep (?S3\<lparr>pending := 47 # name\<rparr>) GT
      = between [] sw th rs rth (cs @ [cellElementOf ?g c]) ?g"
    using n by (auto simp: readStep_GT applyTag_def cl Let_def cellElementOf_def str_def)
  have 6: "readMarkup (between [] sw th rs rth (cs @ [cellElementOf ?g c]) ?g) [NL]
      = between [NL] sw th rs rth (cs @ [cellElementOf ?g c]) ?g"
    by (subst run_plain) simp_all
  let ?S2 = "?S1\<lparr>pending := escapeHtml (newlinesFrom False c), lastCR := crAfter False c\<rparr>"
  let ?C = "47 # name"
  have "readMarkup (between p sw th rs rth cs src)
           ((str ''      '' @ [LT] @ ?g @ [GT]) @ (escapeHtml c @ (LT # (?C @ (GT # [NL])))))
      = readMarkup (readMarkup (between p sw th rs rth cs src) (str ''      '' @ [LT] @ ?g @ [GT]))
           (escapeHtml c @ (LT # (?C @ (GT # [NL]))))"
    by (rule run_append)
  also have "\<dots> = readMarkup ?S1 (escapeHtml c @ (LT # (?C @ (GT # [NL]))))"
    by (simp only: 1)
  also have "\<dots> = readMarkup (readMarkup ?S1 (escapeHtml c)) (LT # (?C @ (GT # [NL])))"
    by (rule run_append)
  also have "\<dots> = readMarkup ?S2 (LT # (?C @ (GT # [NL])))"
    by (simp only: 2)
  also have "\<dots> = readMarkup (readStep ?S2 LT) (?C @ (GT # [NL]))"
    by (rule run_Cons)
  also have "\<dots> = readMarkup ?S3 (?C @ (GT # [NL]))"
    by (simp only: 3)
  also have "\<dots> = readMarkup (readMarkup ?S3 ?C) (GT # [NL])"
    by (rule run_append)
  also have "\<dots> = readMarkup (?S3\<lparr>pending := ?C\<rparr>) (GT # [NL])"
    by (simp only: 4)
  also have "\<dots> = readMarkup (readStep (?S3\<lparr>pending := ?C\<rparr>) GT) [NL]"
    by (rule run_Cons)
  also have "\<dots> = readMarkup (between [] sw th rs rth (cs @ [cellElementOf ?g c]) ?g) [NL]"
    by (simp only: 5)
  also have "\<dots> = between [NL] sw th rs rth (cs @ [cellElementOf ?g c]) ?g"
    by (rule 6)
  finally show ?thesis by simp
qed

lemma attrs_plain:
  "GT \<notin> set (thAttrs as i)" "CR \<notin> set (thAttrs as i)"
  "GT \<notin> set (tdAttrs as i)" "CR \<notin> set (tdAttrs as i)"
  by (simp_all add: thAttrs_def tdAttrs_def cellStyle_def alignStyle_def str_def)

lemma read_thMarkup:
  "readMarkup (between p sw th rs rth cs src) (thMarkup as i c)
     = between [NL] sw th rs rth (cs @ [cellElementOf (str ''th'' @ [SPACE] @ thAttrs as i) (content c)])
         (str ''th'' @ [SPACE] @ thAttrs as i)"
proof -
  have "thMarkup as i c
      = str ''      '' @ [LT] @ (str ''th'' @ [SPACE] @ thAttrs as i) @ [GT] @ escapeHtml (content c)
          @ [LT] @ (47 # str ''th'') @ [GT] @ [NL]"
    by (simp add: thMarkup_def str_def)
  then show ?thesis
    by (simp only: read_cell [OF disjI1 [OF refl] attrs_plain(1,2)])
qed

lemma read_tdMarkup:
  "readMarkup (between p sw th rs rth cs src) (tdMarkup as i c)
     = between [NL] sw th rs rth (cs @ [cellElementOf (str ''td'' @ [SPACE] @ tdAttrs as i) (content c)])
         (str ''td'' @ [SPACE] @ tdAttrs as i)"
proof -
  have "tdMarkup as i c
      = str ''      '' @ [LT] @ (str ''td'' @ [SPACE] @ tdAttrs as i) @ [GT] @ escapeHtml (content c)
          @ [LT] @ (47 # str ''td'') @ [GT] @ [NL]"
    by (simp add: tdMarkup_def str_def)
  then show ?thesis
    by (simp only: read_cell [OF disjI2 [OF refl] attrs_plain(3,4)])
qed

lemma read_cells:
  assumes cm: "\<And>p sw th rs rth cs src i c.
      readMarkup (between p sw th rs rth cs src) (cm i c)
        = between [NL] sw th rs rth (cs @ [cellElementOf (tg i) (content c)]) (tg i)"
  shows "\<exists>p' src'. readMarkup (between p sw th rs rth cs src) (concat (map (\<lambda>i. cm i (f i)) js))
     = between p' sw th rs rth (cs @ map (\<lambda>i. cellElementOf (tg i) (content (f i))) js) src'"
proof (induction js arbitrary: p cs src)
  case Nil
  show ?case by (auto simp: run_Nil)
next
  case (Cons j js)
  from Cons.IH [of "[NL]" "cs @ [cellElementOf (tg j) (content (f j))]" "tg j"]
  obtain p' src' where
    "readMarkup (between [NL] sw th rs rth (cs @ [cellElementOf (tg j) (content (f j))]) (tg j))
        (concat (map (\<lambda>i. cm i (f i)) js))
     = between p' sw th rs rth
         ((cs @ [cellElementOf (tg j) (content (f j))]) @ map (\<lambda>i. cellElementOf (tg i) (content (f i))) js) src'"
    by blast
  then have "readMarkup (between p sw th rs rth cs src) (concat (map (\<lambda>i. cm i (f i)) (j # js)))
     = between p' sw th rs rth (cs @ map (\<lambda>i. cellElementOf (tg i) (content (f i))) (j # js)) src'"
    by (simp add: run_append cm)
  then show ?case by blast
qed

lemma read_row:
  assumes cm: "\<And>p sw th rs rth cs src i c.
      readMarkup (between p sw th rs rth cs src) (cm i c)
        = between [NL] sw th rs rth (cs @ [cellElementOf (tg i) (content c)]) (tg i)"
  shows "\<exists>p' rth' cs' src'. readMarkup (between p sw th rs rth cs src) (rowMarkup cm r)
     = between p' sw th (rs @ [rowElementOf th tg r]) rth' cs' src'"
proof -
  let ?els = "map (\<lambda>i. cellElementOf (tg i) (content (cells r ! i))) [0 ..< length (cells r)]"
  have m: "rowMarkup cm r
      = (str ''    '' @ [LT] @ str ''tr'' @ [GT])
        @ [NL] @ concat (map (\<lambda>i. cm i (cells r ! i)) [0 ..< length (cells r)])
        @ (str ''    '' @ [LT] @ str ''/tr'' @ [GT]) @ [NL]"
    by (simp add: rowMarkup_def str_def)
  have 1: "readMarkup (between p sw th rs rth cs src) (str ''    '' @ [LT] @ str ''tr'' @ [GT])
      = between [] sw th rs th [] src"
    by (rule read_structure_tags) (simp_all add: str_def)
  have 2: "readMarkup (between [] sw th rs th [] src) [NL] = between [NL] sw th rs th [] src"
    by (subst run_plain) simp_all
  from read_cells [of cm tg "[NL]" sw th rs th "[]" src "\<lambda>i. cells r ! i" "[0 ..< length (cells r)]", OF cm]
  obtain p' src' where 3:
    "readMarkup (between [NL] sw th rs th [] src) (concat (map (\<lambda>i. cm i (cells r ! i)) [0 ..< length (cells r)]))
       = between p' sw th rs th ?els src'"
    by auto
  have 4: "readMarkup (between p' sw th rs th ?els src') (str ''    '' @ [LT] @ str ''/tr'' @ [GT])
      = between [] sw th (rs @ [\<lparr>inThead = th, cellElements = ?els\<rparr>]) th ?els src'"
    by (rule read_structure_tags) (simp_all add: str_def)
  have 5: "readMarkup (between [] sw th (rs @ [\<lparr>inThead = th, cellElements = ?els\<rparr>]) th ?els src') [NL]
      = between [NL] sw th (rs @ [\<lparr>inThead = th, cellElements = ?els\<rparr>]) th ?els src'"
    by (subst run_plain) simp_all
  let ?A = "str ''    '' @ [LT] @ str ''tr'' @ [GT]"
  let ?B = "concat (map (\<lambda>i. cm i (cells r ! i)) [0 ..< length (cells r)])"
  let ?C = "str ''    '' @ [LT] @ str ''/tr'' @ [GT]"
  have "readMarkup (between p sw th rs rth cs src) (?A @ [NL] @ ?B @ ?C @ [NL])
      = readMarkup (readMarkup (between p sw th rs rth cs src) ?A) ([NL] @ ?B @ ?C @ [NL])"
    by (rule run_append)
  also have "\<dots> = readMarkup (between [] sw th rs th [] src) ([NL] @ ?B @ ?C @ [NL])"
    by (simp only: 1)
  also have "\<dots> = readMarkup (readMarkup (between [] sw th rs th [] src) [NL]) (?B @ ?C @ [NL])"
    by (rule run_append)
  also have "\<dots> = readMarkup (between [NL] sw th rs th [] src) (?B @ ?C @ [NL])"
    by (simp only: 2)
  also have "\<dots> = readMarkup (readMarkup (between [NL] sw th rs th [] src) ?B) (?C @ [NL])"
    by (rule run_append)
  also have "\<dots> = readMarkup (between p' sw th rs th ?els src') (?C @ [NL])"
    by (simp only: 3)
  also have "\<dots> = readMarkup (readMarkup (between p' sw th rs th ?els src') ?C) [NL]"
    by (rule run_append)
  also have "\<dots> = between [NL] sw th (rs @ [\<lparr>inThead = th, cellElements = ?els\<rparr>]) th ?els src'"
    by (simp only: 4 5)
  finally have "readMarkup (between p sw th rs rth cs src) (rowMarkup cm r)
      = between [NL] sw th (rs @ [rowElementOf th tg r]) th ?els src'"
    by (simp only: m rowElementOf_def)
  then show ?thesis by blast
qed

lemma read_rows:
  assumes cm: "\<And>p sw th rs rth cs src i c.
      readMarkup (between p sw th rs rth cs src) (cm i c)
        = between [NL] sw th rs rth (cs @ [cellElementOf (tg i) (content c)]) (tg i)"
  shows "\<exists>p' rth' cs' src'. readMarkup (between p sw th rs rth cs src) (concat (map (rowMarkup cm) rws))
     = between p' sw th (rs @ map (rowElementOf th tg) rws) rth' cs' src'"
proof (induction rws arbitrary: p rs rth cs src)
  case Nil
  show ?case by (auto simp: run_Nil)
next
  case (Cons r rws)
  from read_row [of cm tg p sw th rs rth cs src r, OF cm]
  obtain p1 rth1 cs1 src1 where 1:
    "readMarkup (between p sw th rs rth cs src) (rowMarkup cm r)
       = between p1 sw th (rs @ [rowElementOf th tg r]) rth1 cs1 src1" by blast
  from Cons.IH [of p1 "rs @ [rowElementOf th tg r]" rth1 cs1 src1]
  obtain p' rth' cs' src' where 2:
    "readMarkup (between p1 sw th (rs @ [rowElementOf th tg r]) rth1 cs1 src1) (concat (map (rowMarkup cm) rws))
       = between p' sw th ((rs @ [rowElementOf th tg r]) @ map (rowElementOf th tg) rws) rth' cs' src'"
    by blast
  have "readMarkup (between p sw th rs rth cs src) (concat (map (rowMarkup cm) (r # rws)))
      = between p' sw th (rs @ map (rowElementOf th tg) (r # rws)) rth' cs' src'"
    by (simp add: run_append 1 2)
  then show ?case by blast
qed

lemma read_head_section:
  "\<exists>p' rth' cs' src'.
     readMarkup (between p sw False rs rth cs src)
       (if length H > 0
        then str ''  <thead>'' @ [NL] @ concat (map (rowMarkup (thMarkup as)) H) @ str ''  </thead>'' @ [NL]
        else [])
     = between p' sw False (rs @ map (rowElementOf True (\<lambda>i. str ''th'' @ [SPACE] @ thAttrs as i)) H)
         rth' cs' src'"
proof (cases "length H > 0")
  case False
  then show ?thesis by (auto simp: run_Nil)
next
  case True
  let ?tg = "\<lambda>i. str ''th'' @ [SPACE] @ thAttrs as i"
  let ?A = "str ''  '' @ [LT] @ str ''thead'' @ [GT]"
  let ?B = "concat (map (rowMarkup (thMarkup as)) H)"
  let ?C = "str ''  '' @ [LT] @ str ''/thead'' @ [GT]"
  have m: "str ''  <thead>'' @ [NL] @ ?B @ str ''  </thead>'' @ [NL] = ?A @ [NL] @ ?B @ ?C @ [NL]"
    by (simp add: str_def)
  have 1: "readMarkup (between p sw False rs rth cs src) ?A = between [] sw True rs rth cs src"
    by (rule read_structure_tags) (simp_all add: str_def)
  have 2: "readMarkup (between [] sw True rs rth cs src) [NL] = between [NL] sw True rs rth cs src"
    by (subst run_plain) simp_all
  from read_rows [of "thMarkup as" ?tg "[NL]" sw True rs rth cs src H, OF read_thMarkup]
  obtain p1 rth1 cs1 src1 where 3:
    "readMarkup (between [NL] sw True rs rth cs src) ?B
       = between p1 sw True (rs @ map (rowElementOf True ?tg) H) rth1 cs1 src1" by blast
  have 4: "readMarkup (between p1 sw True (rs @ map (rowElementOf True ?tg) H) rth1 cs1 src1) ?C
      = between [] sw False (rs @ map (rowElementOf True ?tg) H) rth1 cs1 src1"
    by (rule read_structure_tags) (simp_all add: str_def)
  have 5: "readMarkup (between [] sw False (rs @ map (rowElementOf True ?tg) H) rth1 cs1 src1) [NL]
      = between [NL] sw False (rs @ map (rowElementOf True ?tg) H) rth1 cs1 src1"
    by (subst run_plain) simp_all
  have "readMarkup (between p sw False rs rth cs src) (?A @ [NL] @ ?B @ ?C @ [NL])
      = readMarkup (readMarkup (between p sw False rs rth cs src) ?A) ([NL] @ ?B @ ?C @ [NL])"
    by (rule run_append)
  also have "\<dots> = readMarkup (between [] sw True rs rth cs src) ([NL] @ ?B @ ?C @ [NL])"
    by (simp only: 1)
  also have "\<dots> = readMarkup (readMarkup (between [] sw True rs rth cs src) [NL]) (?B @ ?C @ [NL])"
    by (rule run_append)
  also have "\<dots> = readMarkup (between [NL] sw True rs rth cs src) (?B @ ?C @ [NL])"
    by (simp only: 2)
  also have "\<dots> = readMarkup (readMarkup (between [NL] sw True rs rth cs src) ?B) (?C @ [NL])"
    by (rule run_append)
  also have "\<dots> = readMarkup (between p1 sw True (rs @ map (rowElementOf True ?tg) H) rth1 cs1 src1) (?C @ [NL])"
    by (simp only: 3)
  also have "\<dots> = readMarkup (readMarkup (between p1 sw True (rs @ map (rowElementOf True ?tg) H) rth1 cs1 src1) ?C) [NL]"
    by (rule run_append)
  also have "\<dots> = between [NL] sw False (rs @ map (rowElementOf True ?tg) H) rth1 cs1 src1"
    by (simp only: 4 5)
  finally have "readMarkup (between p sw False rs rth cs src)
       (str ''  <thead>'' @ [NL] @ ?B @ str ''  </thead>'' @ [NL])
     = between [NL] sw False (rs @ map (rowElementOf True ?tg) H) rth1 cs1 src1"
    by (simp only: m)
  with True show ?thesis by (simp only: if_True) blast
qed

lemma read_body_section:
  "\<exists>p' rth' cs' src'.
     readMarkup (between p sw False rs rth cs src)
       (if length D > 0
        then str ''  <tbody>'' @ [NL] @ concat (map (rowMarkup (tdMarkup as)) D) @ str ''  </tbody>'' @ [NL]
        else [])
     = between p' sw False (rs @ map (rowElementOf False (\<lambda>i. str ''td'' @ [SPACE] @ tdAttrs as i)) D)
         rth' cs' src'"
proof (cases "length D > 0")
  case False
  then show ?thesis by (auto simp: run_Nil)
next
  case True
  let ?tg = "\<lambda>i. str ''td'' @ [SPACE] @ tdAttrs as i"
  let ?A = "str ''  '' @ [LT] @ str ''tbody'' @ [GT]"
  let ?B = "concat (map (rowMarkup (tdMarkup as)) D)"
  let ?C = "str ''  '' @ [LT] @ str ''/tbody'' @ [GT]"
  have m: "str ''  <tbody>'' @ [NL] @ ?B @ str ''  </tbody>'' @ [NL] = ?A @ [NL] @ ?B @ ?C @ [NL]"
    by (simp add: str_def)
  have 1: "readMarkup (between p sw False rs rth cs src) ?A = between [] sw False rs rth cs src"
    by (rule read_structure_tags) (simp_all add: str_def)
  have 2: "readMarkup (between [] sw False rs rth cs src) [NL] = between [NL] sw False rs rth cs src"
    by (subst run_plain) simp_all
  from read_rows [of "tdMarkup as" ?tg "[NL]" sw False rs rth cs src D, OF read_tdMarkup]
  obtain p1 rth1 cs1 src1 where 3:
    "readMarkup (between [NL] sw False rs rth cs src) ?B
       = between p1 sw False (rs @ map (rowElementOf False ?tg) D) rth1 cs1 src1" by blast
  have 4: "readMarkup (between p1 sw False (rs @ map (rowElementOf False ?tg) D) rth1 cs1 src1) ?C
      = between [] sw False (rs @ map (rowElementOf False ?tg) D) rth1 cs1 src1"
    by (rule read_structure_tags) (simp_all add: str_def)
  have 5: "readMarkup (between [] sw False (rs @ map (rowElementOf False ?tg) D) rth1 cs1 src1) [NL]
      = between [NL] sw False (rs @ map (rowElementOf False ?tg) D) rth1 cs1 src1"
    by (subst run_plain) simp_all
  have "readMarkup (between p sw False rs rth cs src) (?A @ [NL] @ ?B @ ?C @ [NL])
      = readMarkup (readMarkup (between p sw False rs rth cs src) ?A) ([NL] @ ?B @ ?C @ [NL])"
    by (rule run_append)
  also have "\<dots> = readMarkup (between [] sw False rs rth cs src) ([NL] @ ?B @ ?C @ [NL])"
    by (simp only: 1)
  also have "\<dots> = readMarkup (readMarkup (between [] sw False rs rth cs src) [NL]) (?B @ ?C @ [NL])"
    by (rule run_append)
  also have "\<dots> = readMarkup (between [NL] sw False rs rth cs src) (?B @ ?C @ [NL])"
    by (simp only: 2)
  also have "\<dots> = readMarkup (readMarkup (between [NL] sw False rs rth cs src) ?B) (?C @ [NL])"
    by (rule run_append)
  also have "\<dots> = readMarkup (between p1 sw False (rs @ map (rowElementOf False ?tg) D) rth1 cs1 src1) (?C @ [NL])"
    by (simp only: 3)
  also have "\<dots> = readMarkup (readMarkup (between p1 sw False (rs @ map (rowElementOf False ?tg) D) rth1 cs1 src1) ?C) [NL]"
    by (rule run_append)
  also have "\<dots> = between [NL] sw False (rs @ map (rowElementOf False ?tg) D) rth1 cs1 src1"
    by (simp only: 4 5)
  finally have "readMarkup (between p sw False rs rth cs src)
       (str ''  <tbody>'' @ [NL] @ ?B @ str ''  </tbody>'' @ [NL])
     = between [NL] sw False (rs @ map (rowElementOf False ?tg) D) rth1 cs1 src1"
    by (simp only: m)
  with True show ?thesis by (simp only: if_True) blast
qed

lemma read_table_open:
  "readMarkup readerStart
     (str ''<table style='' @ [DQUOTE] @ str ''border-collapse: collapse; border: 1px solid black;''
        @ [DQUOTE] @ str ''>'' @ [NL])
   = between [NL] True False [] False [] []"
proof -
  let ?g = "str ''table style='' @ [DQUOTE] @ str ''border-collapse: collapse; border: 1px solid black;'' @ [DQUOTE]"
  have m: "str ''<table style='' @ [DQUOTE] @ str ''border-collapse: collapse; border: 1px solid black;''
        @ [DQUOTE] @ str ''>'' @ [NL] = ([] @ [LT] @ ?g @ [GT]) @ [NL]"
    by (simp add: str_def)
  have 1: "readMarkup (between [] False False [] False [] []) ([] @ [LT] @ ?g @ [GT])
      = between [] True False [] False [] []"
    by (subst read_tag) (simp_all add: applyTag_def str_def)
  have 2: "readMarkup (between [] True False [] False [] []) [NL] = between [NL] True False [] False [] []"
    by (subst run_plain) simp_all
  show ?thesis
    unfolding m readerStart_def by (simp only: run_append [of _ "[] @ [LT] @ ?g @ [GT]"] 1 2)
qed

lemma parsedTableElement_generated:
  "parsedTableElement (tableModelToHtml t)
     = Some \<lparr>trElements =
                map (rowElementOf True (\<lambda>i. str ''th'' @ [SPACE] @ thAttrs (alignments t) i))
                    (filter (\<lambda>r. isHeader r) (rows t))
                @ map (rowElementOf False (\<lambda>i. str ''td'' @ [SPACE] @ tdAttrs (alignments t) i))
                    (filter (\<lambda>r. \<not> isHeader r) (rows t)),
             tdthElements = concat (map cellElements
               (map (rowElementOf True (\<lambda>i. str ''th'' @ [SPACE] @ thAttrs (alignments t) i))
                    (filter (\<lambda>r. isHeader r) (rows t))
                @ map (rowElementOf False (\<lambda>i. str ''td'' @ [SPACE] @ tdAttrs (alignments t) i))
                    (filter (\<lambda>r. \<not> isHeader r) (rows t))))\<rparr>"
proof -
  let ?H = "filter (\<lambda>r. isHeader r) (rows t)"
  let ?D = "filter (\<lambda>r. \<not> isHeader r) (rows t)"
  let ?hs = "map (rowElementOf True (\<lambda>i. str ''th'' @ [SPACE] @ thAttrs (alignments t) i)) ?H"
  let ?ds = "map (rowElementOf False (\<lambda>i. str ''td'' @ [SPACE] @ tdAttrs (alignments t) i)) ?D"
  let ?P = "str ''<table style='' @ [DQUOTE] @ str ''border-collapse: collapse; border: 1px solid black;''
        @ [DQUOTE] @ str ''>'' @ [NL]"
  let ?HS = "if length ?H > 0
        then str ''  <thead>'' @ [NL] @ concat (map (rowMarkup (thMarkup (alignments t))) ?H) @ str ''  </thead>'' @ [NL]
        else []"
  let ?DS = "if length ?D > 0
        then str ''  <tbody>'' @ [NL] @ concat (map (rowMarkup (tdMarkup (alignments t))) ?D) @ str ''  </tbody>'' @ [NL]
        else []"
  let ?E = "[] @ [LT] @ str ''/table'' @ [GT]"
  have m: "tableModelToHtml t = ?P @ ?HS @ ?DS @ ?E"
    by (simp add: tableModelToHtml_def Let_def str_def)
  from read_head_section [of "[NL]" True "[]" False "[]" "[]" ?H "alignments t"]
  obtain p1 rth1 cs1 src1 where 1:
    "readMarkup (between [NL] True False [] False [] []) ?HS = between p1 True False ([] @ ?hs) rth1 cs1 src1"
    by blast
  from read_body_section [of p1 True "[] @ ?hs" rth1 cs1 src1 ?D "alignments t"]
  obtain p2 rth2 cs2 src2 where 2:
    "readMarkup (between p1 True False ([] @ ?hs) rth1 cs1 src1) ?DS
       = between p2 True False (([] @ ?hs) @ ?ds) rth2 cs2 src2"
    by blast
  have 3: "readMarkup (between p2 True False (([] @ ?hs) @ ?ds) rth2 cs2 src2) ?E
      = between [] True False (([] @ ?hs) @ ?ds) rth2 cs2 src2"
    by (rule read_structure_tags) simp_all
  have "readMarkup readerStart (?P @ ?HS @ ?DS @ ?E)
      = readMarkup (readMarkup readerStart ?P) (?HS @ ?DS @ ?E)"
    by (rule run_append)
  also have "\<dots> = readMarkup (between [NL] True False [] False [] []) (?HS @ ?DS @ ?E)"
    by (simp only: read_table_open)
  also have "\<dots> = readMarkup (readMarkup (between [NL] True False [] False [] []) ?HS) (?DS @ ?E)"
    by (rule run_append)
  also have "\<dots> = readMarkup (between p1 True False ([] @ ?hs) rth1 cs1 src1) (?DS @ ?E)"
    by (simp only: 1)
  also have "\<dots> = readMarkup (readMarkup (between p1 True False ([] @ ?hs) rth1 cs1 src1) ?DS) ?E"
    by (rule run_append)
  also have "\<dots> = between [] True False (([] @ ?hs) @ ?ds) rth2 cs2 src2"
    by (simp only: 2 3)
  finally have "readMarkup readerStart (tableModelToHtml t) = between [] True False (?hs @ ?ds) rth2 cs2 src2"
    by (simp only: m append_Nil)
  then show ?thesis
    by (simp add: parsedTableElement_def)
qed

lemma owed_Nil: "\<not> owed [] i"
  by (simp add: owed_def)

lemma consumeCell_plain:
  assumes "colspanAttr el = None" "rowspanAttr el = None"
  shows "cellsOut (consumeCell lc capture el w) = cellsOut w @ [createCell1 (cellText el)]"
    and "ledger (consumeCell lc capture el w) = ledger w"
proof -
  have one: "spanOf None = Some 1"
    by (simp add: spanOf_def parseInt10_def Let_def startsWith_def isDigit_def digitsValue_def
        isWhiteSpace_def str_def)
  have e: "consumeCell lc capture el w
      = expandCell lc capture (cellText el) (Some 1) (Some 1) (cellAlign el) 0 w"
    using assms by (simp add: consumeCell_def one)
  show "cellsOut (consumeCell lc capture el w) = cellsOut w @ [createCell1 (cellText el)]"
    unfolding e
    by (simp add: expandCell_step expandCell_none numLess_def Let_def split: option.splits)
  show "ledger (consumeCell lc capture el w) = ledger w"
    unfolding e
    by (simp add: expandCell_step expandCell_none numLess_def Let_def split: option.splits)
qed

lemma walkCells_plain:
  "ledger w = [] \<Longrightarrow>
   \<forall>e \<in> set els. colspanAttr e = None \<and> rowspanAttr e = None \<Longrightarrow>
   cellsOut (walkCells lc capture els cellElIdx w)
     = cellsOut w @ map (\<lambda>e. createCell1 (cellText e)) (drop cellElIdx els) \<and>
   ledger (walkCells lc capture els cellElIdx w) = []"
proof (induction lc capture els cellElIdx w rule: walkCells.induct)
  case (1 lc capture els cellElIdx w)
  have no: "\<not> owed (ledger w) (colIdx w)" using "1.prems"(1) by (simp add: owed_Nil)
  show ?case
  proof (cases "cellElIdx < length els")
    case False
    with no show ?thesis using "1.prems"(1) by (simp add: walkCells_done)
  next
    case True
    let ?el = "els ! cellElIdx"
    let ?w = "consumeCell lc capture ?el w"
    from True "1.prems"(2) have pl: "colspanAttr ?el = None" "rowspanAttr ?el = None" by simp_all
    have l: "ledger ?w = []" using "1.prems"(1) by (simp add: consumeCell_plain(2) [OF pl])
    have ih: "cellsOut (walkCells lc capture els (cellElIdx + 1) ?w)
        = cellsOut ?w @ map (\<lambda>e. createCell1 (cellText e)) (drop (cellElIdx + 1) els) \<and>
      ledger (walkCells lc capture els (cellElIdx + 1) ?w) = []"
      using "1.IH"(2) True no l "1.prems"(2) by simp
    have d: "drop cellElIdx els = ?el # drop (cellElIdx + 1) els"
      using True by (simp add: Cons_nth_drop_Suc)
    show ?thesis
      using ih by (simp add: walkCells_consume [OF True no] consumeCell_plain(1) [OF pl] d)
  qed
qed

lemma processRow_plain:
  assumes "rowspanTracker p = []"
    and "\<forall>e \<in> set (cellElements tr). colspanAttr e = None \<and> rowspanAttr e = None"
  shows "map cells (rowsOut (processRow lc tf k tr p))
           = map cells (rowsOut p) @ [map (\<lambda>e. createCell1 (cellText e)) (cellElements tr)]"
    and "rowspanTracker (processRow lc tf k tr p) = []"
proof -
  let ?hdr = "inThead tr \<or> (tf \<and> k = 0)"
  let ?w0 = "\<lparr>cellsOut = [], ledger = rowspanTracker p, alignmentsOut = alignmentsAcc p, colIdx = 0\<rparr>"
  let ?w1 = "walkCells lc (?hdr \<and> \<not> alignmentsSet p) (cellElements tr) 0 ?w0"
  have w: "cellsOut ?w1 = map (\<lambda>e. createCell1 (cellText e)) (cellElements tr) \<and> ledger ?w1 = []"
    using walkCells_plain [of ?w0 "cellElements tr" lc "?hdr \<and> \<not> alignmentsSet p" 0] assms
    by simp
  have d: "drainFillers ?w1 = ?w1" by (rule drainFillers_after_walk)
  show "map cells (rowsOut (processRow lc tf k tr p))
           = map cells (rowsOut p) @ [map (\<lambda>e. createCell1 (cellText e)) (cellElements tr)]"
    unfolding processRow_def Let_def d using w by (simp add: createRow_def)
  show "rowspanTracker (processRow lc tf k tr p) = []"
    unfolding processRow_def Let_def d using w by simp
qed

lemma processRows_plain:
  "rowspanTracker p = [] \<Longrightarrow>
   \<forall>tr \<in> set trs. \<forall>e \<in> set (cellElements tr). colspanAttr e = None \<and> rowspanAttr e = None \<Longrightarrow>
   map cells (rowsOut (processRows lc tf k trs p))
     = map cells (rowsOut p) @ map (\<lambda>tr. map (\<lambda>e. createCell1 (cellText e)) (cellElements tr)) trs"
proof (induction trs arbitrary: k p)
  case Nil
  show ?case by simp
next
  case (Cons tr trs)
  from Cons.prems have pl: "\<forall>e \<in> set (cellElements tr). colspanAttr e = None \<and> rowspanAttr e = None"
    by simp
  note pr = processRow_plain [OF Cons.prems(1) pl, of lc tf k]
  have "map cells (rowsOut (processRows lc tf (k + 1) trs (processRow lc tf k tr p)))
      = map cells (rowsOut (processRow lc tf k tr p))
        @ map (\<lambda>tr. map (\<lambda>e. createCell1 (cellText e)) (cellElements tr)) trs"
    by (rule Cons.IH) (use pr(2) Cons.prems(2) in simp_all)
  then show ?case by (simp add: pr(1))
qed

lemma collapse_newlines:
  "(f \<longrightarrow> b) \<Longrightarrow>
   collapseFrom b (filter (\<lambda>x. x \<noteq> NUL) (newlinesFrom f c)) = collapseFrom b (filter (\<lambda>x. x \<noteq> NUL) c)"
  by (induction c arbitrary: f b) (auto simp: isWhiteSpace_def)

lemma cellText_cellElementOf:
  "cellText (cellElementOf src c) = trim (collapseFrom False (filter (\<lambda>x. x \<noteq> NUL) c))"
  using collapse_newlines [of False False c]
  by (simp add: cellText_def cellElementOf_def)

lemma normalizeTable_full_rows:
  assumes ne: "rows t \<noteq> []" and full: "\<forall>r \<in> set (rows t). colspanSum (cells r) = n" and n: "0 \<le> n"
  shows "rows (normalizeTable t) = rows t" and "length (alignments (normalizeTable t)) = nat n"
proof -
  from full have "(\<lambda>r. colspanSum (cells r)) ` set (rows t) = (\<lambda>r. n) ` set (rows t)"
    by simp
  moreover from ne have "set (rows t) \<noteq> {}" by simp
  ultimately have "(\<lambda>r. colspanSum (cells r)) ` set (rows t) = {n}"
    by (simp add: image_constant_conv)
  then have g: "getColumnCount t = n" using n by (simp add: getColumnCount_Max)
  have "map (normalizeRow n) (rows t) = rows t"
    using full by (simp add: normalizeRow_full map_idI)
  then show "rows (normalizeTable t) = rows t" by (simp add: normalizeTable_rows g)
  show "length (alignments (normalizeTable t)) = nat n"
    by (simp add: normalizeTable_alignments g)
qed

lemma parseMarkdownTable_headers_first:
  assumes "parseMarkdownTable md = Some m"
  shows "filter (\<lambda>r. isHeader r) (rows m) @ filter (\<lambda>r. \<not> isHeader r) (rows m) = rows m"
proof -
  from parseMarkdownTable_Some [OF assms] obtain k where
    t: "m = normalizeTable (createTable
           (map (\<lambda>line. createRow (map createCell1 (parseCells line)) True) (take k (markdownLines md))
            @ map (\<lambda>line. createRow (map createCell1 (parseCells line)) False) (drop (k + 1) (markdownLines md)))
           (parseAlignments (markdownLines md ! k)))" by blast
  have h: "isHeader (normalizeRow n (createRow cs b)) = b" for n cs b
    by (simp add: normalizeRow_def createRow_def)
  show ?thesis
    unfolding t normalizeTable_rows
    by (simp add: createTable_def filter_map comp_def h)
qed

lemma cells_of_rowElement:
  "map (\<lambda>e. createCell1 (cellText e)) (cellElements (rowElementOf th tg r))
     = map (\<lambda>c. createCell1 (collapsedContent (content c))) (cells r)"
  by (rule nth_equalityI)
     (simp_all add: rowElementOf_def cellText_cellElementOf collapsedContent_def)

lemma rowElement_plain:
  "\<forall>e \<in> set (cellElements (rowElementOf th tg r)). colspanAttr e = None \<and> rowspanAttr e = None"
  by (simp add: rowElementOf_def cellElementOf_def)

lemma roundtrip_contents:
  assumes p: "parseMarkdownTable md = Some m1"
  shows "\<exists>m2. markdownHtmlRoundTrip lc md = Some m2 \<and>
           cellContents m2 = map (map collapsedContent) (cellContents m1) \<and>
           length (alignments m2) = length (alignments m1)"
proof -
  let ?H = "filter (\<lambda>r. isHeader r) (rows m1)"
  let ?D = "filter (\<lambda>r. \<not> isHeader r) (rows m1)"
  let ?tgh = "\<lambda>i. str ''th'' @ [SPACE] @ thAttrs (alignments m1) i"
  let ?tgd = "\<lambda>i. str ''td'' @ [SPACE] @ tdAttrs (alignments m1) i"
  let ?trs = "map (rowElementOf True ?tgh) ?H @ map (rowElementOf False ?tgd) ?D"
  let ?dom = "\<lparr>trElements = ?trs, tdthElements = concat (map cellElements ?trs)\<rparr>"
  let ?n = "length (alignments m1)"
  from parseMarkdownTable_wellFormed [OF p] have
    ne: "rows m1 \<noteq> []" and npos: "alignments m1 \<noteq> []" and
    shape: "\<forall>r \<in> set (rows m1). length (cells r) = ?n"
    by (auto simp: wellFormedTable_def list_all_iff)
  have hd: "?H @ ?D = rows m1" by (rule parseMarkdownTable_headers_first [OF p])
  have dom: "parsedTableElement (tableModelToHtml m1) = Some ?dom"
    by (rule parsedTableElement_generated)
  have trs_len: "length ?trs = length (rows m1)"
    using arg_cong [OF hd, of length] by simp
  with ne have trs_ne: "?trs \<noteq> []" by auto
  let ?tf = "\<not> list_ex inThead ?trs"
  let ?P = "processRows lc ?tf 0 ?trs
              \<lparr>rowsOut = [], alignmentsAcc = [], alignmentsSet = False, rowspanTracker = []\<rparr>"
  let ?m2 = "normalizeTable (createTable (rowsOut ?P) (alignmentsAcc ?P))"
  have m2: "htmlTableToModel lc ?dom = Some ?m2"
    using trs_ne by (simp add: htmlTableToModel_def Let_def)
  have plain: "\<forall>tr \<in> set ?trs. \<forall>e \<in> set (cellElements tr). colspanAttr e = None \<and> rowspanAttr e = None"
    using rowElement_plain by auto
  have "map cells (rowsOut ?P)
      = map cells (rowsOut \<lparr>rowsOut = [], alignmentsAcc = [], alignmentsSet = False, rowspanTracker = []\<rparr>)
        @ map (\<lambda>tr. map (\<lambda>e. createCell1 (cellText e)) (cellElements tr)) ?trs"
    by (rule processRows_plain) (use plain in simp_all)
  also have "\<dots> = map (\<lambda>r. map (\<lambda>c. createCell1 (collapsedContent (content c))) (cells r)) (?H @ ?D)"
    by (simp add: cells_of_rowElement comp_def)
  finally have cs: "map cells (rowsOut ?P)
      = map (\<lambda>r. map (\<lambda>c. createCell1 (collapsedContent (content c))) (cells r)) (rows m1)"
    by (simp only: hd)
  have len: "length (rowsOut ?P) = length (rows m1)"
    using arg_cong [OF cs, of length] by simp
  with ne have out_ne: "rows (createTable (rowsOut ?P) (alignmentsAcc ?P)) \<noteq> []"
    by (auto simp: createTable_def)
  have full: "\<forall>r \<in> set (rows (createTable (rowsOut ?P) (alignmentsAcc ?P))). colspanSum (cells r) = int ?n"
  proof
    fix r assume "r \<in> set (rows (createTable (rowsOut ?P) (alignmentsAcc ?P)))"
    then have "cells r \<in> set (map cells (rowsOut ?P))" by (simp add: createTable_def)
    then obtain r1 where r1: "r1 \<in> set (rows m1)"
      and c: "cells r = map (\<lambda>c. createCell1 (collapsedContent (content c))) (cells r1)"
      unfolding cs by auto
    have "colspanSum (cells r) = int (length (cells r))"
      by (rule colspanSum_all_one) (simp add: c createCell1_def createCell_def)
    with c r1 shape show "colspanSum (cells r) = int ?n" by simp
  qed
  note nf = normalizeTable_full_rows [OF out_ne full]
  have rows2: "rows ?m2 = rowsOut ?P" using nf(1) by (simp add: createTable_def)
  have al2: "length (alignments ?m2) = ?n" using nf(2) by simp
  have "cellContents ?m2 = map (map content) (map cells (rowsOut ?P))"
    unfolding cellContents_def rows2 by (simp only: map_map comp_def)
  also have "\<dots> = map (map collapsedContent) (cellContents m1)"
    unfolding cs by (simp add: cellContents_def comp_def createCell1_def createCell_def)
  finally have cc: "cellContents ?m2 = map (map collapsedContent) (cellContents m1)" .
  have "markdownHtmlRoundTrip lc md = htmlTableToModel lc ?dom"
    by (simp only: markdownHtmlRoundTrip_def p dom option.case)
  then have "markdownHtmlRoundTrip lc md = Some ?m2"
    by (simp only: m2)
  with cc al2 show ?thesis by blast
qed

text \<open>
  Claim C1, as amended. For every Markdown text that \<open>parseMarkdownTable\<close> accepts,
  the markup that \<open>tableModelToHtml\<close> writes for the parsed model, read as a table
  element and given to \<open>htmlTableToModel\<close>, yields a model with the same number of rows,
  the same number of cells in every row and the same number of columns; every cell content
  is the original one with NUL dropped, every run of whitespace made one space and the
  ends trimmed. So the contents are equal when no original content is changed by that.
\<close>

theorem markdown_html_roundtrip:
  "parseMarkdownTable md = Some m1 \<Longrightarrow>
     \<exists>m2. markdownHtmlRoundTrip lc md = Some m2 \<and>
        length (rows m2) = length (rows m1) \<and>
        (\<forall>i < length (rows m1). length (cells (rows m2 ! i)) = length (cells (rows m1 ! i))) \<and>
        length (alignments m2) = length (alignments m1) \<and>
        cellContents m2 = map (map collapsedContent) (cellContents m1) \<and>
        ((\<forall>r \<in> set (rows m1). \<forall>c \<in> set (cells r). collapsedContent (content c) = content c) \<longrightarrow>
           cellContents m2 = cellContents m1)"
proof -
  assume p: "parseMarkdownTable md = Some m1"
  from roundtrip_contents [OF p, of lc] obtain m2 where
    rt: "markdownHtmlRoundTrip lc md = Some m2" and
    cc: "cellContents m2 = map (map collapsedContent) (cellContents m1)" and
    al: "length (alignments m2) = length (alignments m1)" by blast
  have "length (cellContents m2) = length (map (map collapsedContent) (cellContents m1))"
    by (simp only: cc)
  then have lr: "length (rows m2) = length (rows m1)"
    by (simp add: cellContents_def)
  have lc: "length (cells (rows m2 ! i)) = length (cells (rows m1 ! i))" if i: "i < length (rows m1)" for i
  proof -
    from cc have "cellContents m2 ! i = map (map collapsedContent) (cellContents m1) ! i" by simp
    with i lr have "map content (cells (rows m2 ! i)) = map collapsedContent (map content (cells (rows m1 ! i)))"
      by (simp add: cellContents_def)
    from arg_cong [OF this, of length] show ?thesis by simp
  qed
  have eq: "cellContents m2 = cellContents m1"
    if "\<forall>r \<in> set (rows m1). \<forall>c \<in> set (cells r). collapsedContent (content c) = content c"
  proof -
    from that have "map (map collapsedContent) (cellContents m1) = cellContents m1"
      by (simp add: cellContents_def map_idI)
    with cc show ?thesis by simp
  qed
  from rt lr lc al cc eq show ?thesis by blast
qed

lemma parse_example_spaces:
  "parseMarkdownTable (str ''| a  b |'' @ [NL] @ str ''|---|'' @ [NL] @ str ''| 1 |'')
  = Some \<lparr>alignments = [str ''left''],
       rows = [\<lparr>isHeader = True, cells = [createCell (str ''a  b'') 1 1]\<rparr>,
               \<lparr>isHeader = False, cells = [createCell (str ''1'') 1 1]\<rparr>]\<rparr>"
  by (simp add: parseMarkdownTable_def markdownLines_def split_on_def trim_def isWhiteSpace_def str_def
      findSeparator.simps SEPARATOR_RE_def separatorClass_def Let_def
      parseAlignments_def segmentAlignment_def stripLeadingPipe_def stripTrailingPipe_def
      startsWith_def endsWith_def parseCells_def splitUnescaped_def
      createRow_def createCell1_def createCell_def createTable_def
      normalizeTable_def getColumnCount_def colspanSum_def normalizeRow_def padCells.simps
      padAlignments.simps slice0_def createCell0_def)

lemma collapsedContent_examples:
  "collapsedContent (str ''A'') = str ''A''" "collapsedContent (str ''B'') = str ''B''"
  "collapsedContent (str ''x y'') = str ''x y''" "collapsedContent [] = []"
  "collapsedContent (str ''a  b'') = str ''a b''" "collapsedContent (str ''1'') = str ''1''"
  by (simp_all add: collapsedContent_def trim_def isWhiteSpace_def str_def)

theorem markdown_html_roundtrip_witness:
  "\<exists>m2. markdownHtmlRoundTrip id (str ''| A | B |'' @ [NL] @ str ''|:-:|--:|'' @ [NL] @ str ''| x y |'') = Some m2 \<and>
        length (rows m2) = 2 \<and> length (alignments m2) = 2 \<and>
        cellContents m2 = [[str ''A'', str ''B''], [str ''x y'', []]]"
proof -
  let ?m1 = "\<lparr>alignments = [str ''center'', str ''right''],
       rows = [\<lparr>isHeader = True, cells = [createCell (str ''A'') 1 1, createCell (str ''B'') 1 1]\<rparr>,
               \<lparr>isHeader = False, cells = [createCell (str ''x y'') 1 1, createCell [] 1 1]\<rparr>]\<rparr>"
  have fixed: "\<forall>r \<in> set (rows ?m1). \<forall>c \<in> set (cells r). collapsedContent (content c) = content c"
    by (simp add: createCell_def collapsedContent_examples)
  have cc: "cellContents ?m1 = [[str ''A'', str ''B''], [str ''x y'', []]]"
    by (simp add: cellContents_def createCell_def)
  from markdown_html_roundtrip [OF parse_example_plain, of id] obtain m2 where
    "markdownHtmlRoundTrip id (str ''| A | B |'' @ [NL] @ str ''|:-:|--:|'' @ [NL] @ str ''| x y |'') = Some m2"
    "length (rows m2) = length (rows ?m1)" "length (alignments m2) = length (alignments ?m1)"
    "(\<forall>r \<in> set (rows ?m1). \<forall>c \<in> set (cells r). collapsedContent (content c) = content c) \<longrightarrow>
           cellContents m2 = cellContents ?m1"
    by blast
  with fixed cc show ?thesis by auto
qed

text \<open>
  Claim C1 as stated fails on a cell with two spaces in a row: the parsed model holds
  \<open>a  b\<close>, and the model that comes back from the markup holds \<open>a b\<close>, because
  \<open>htmlTableToModel\<close> collapses whitespace and \<open>parseMarkdownTable\<close> only trims.
\<close>

theorem markdown_html_roundtrip_counterexample:
  "map_option cellContents (parseMarkdownTable (str ''| a  b |'' @ [NL] @ str ''|---|'' @ [NL] @ str ''| 1 |''))
     = Some [[str ''a  b''], [str ''1'']] \<and>
   map_option cellContents (markdownHtmlRoundTrip id (str ''| a  b |'' @ [NL] @ str ''|---|'' @ [NL] @ str ''| 1 |''))
     = Some [[str ''a b''], [str ''1'']]"
proof -
  let ?m1 = "\<lparr>alignments = [str ''left''],
       rows = [\<lparr>isHeader = True, cells = [createCell (str ''a  b'') 1 1]\<rparr>,
               \<lparr>isHeader = False, cells = [createCell (str ''1'') 1 1]\<rparr>]\<rparr>"
  have cc: "cellContents ?m1 = [[str ''a  b''], [str ''1'']]"
    by (simp add: cellContents_def createCell_def)
  from roundtrip_contents [OF parse_example_spaces, of id] obtain m2 where
    rt: "markdownHtmlRoundTrip id (str ''| a  b |'' @ [NL] @ str ''|---|'' @ [NL] @ str ''| 1 |'') = Some m2" and
    c2: "cellContents m2 = map (map collapsedContent) (cellContents ?m1)"
    by blast
  from c2 have c3: "cellContents m2 = [[str ''a b''], [str ''1'']]"
    by (simp add: cc collapsedContent_examples)
  have p1: "map_option cellContents (parseMarkdownTable (str ''| a  b |'' @ [NL] @ str ''|---|'' @ [NL] @ str ''| 1 |''))
     = Some [[str ''a  b''], [str ''1'']]"
    by (simp only: parse_example_spaces option.map cc)
  have p2: "map_option cellContents (markdownHtmlRoundTrip id (str ''| a  b |'' @ [NL] @ str ''|---|'' @ [NL] @ str ''| 1 |''))
     = Some [[str ''a b''], [str ''1'']]"
    by (simp only: rt option.map c3)
  from p1 p2 show ?thesis by (rule conjI)
qed

section \<open>Escaped bars through generation and parsing\<close>






















































end
